(* ===== verification/Prelude.thy ===== *)
theory Prelude
  imports Main "HOL-Library.Word"
begin

section \<open>Prelude: machine types, outcomes of Rust code, shared lemmas\<close>

text \<open>
  The types and the error monad every component is written in.  A Rust computation has five
  outcomes: it returns a value (\<open>Ok\<close>), it returns an error (\<open>Err\<close>, the early return of \<open>?\<close>,
  \<open>ensure!\<close> and \<open>bail!\<close>), it panics (\<open>Panic\<close>), it has undefined behaviour (\<open>Undefined\<close>, a
  dereference of unmapped memory in an \<open>unsafe\<close> block), or it never returns (\<open>Diverge\<close>).
  The theory also holds the description of the compilation target, the named collections of
  simplification rules, and lemmas on lists that several components use.
\<close>

named_theorems outcome_simps \<open>evaluation of the outcome monad\<close>
named_theorems outcome_elims \<open>inversion of a successful run of the outcome monad\<close>
named_theorems wire_simps \<open>lengths and decoding of byte strings on the wire\<close>

subsection \<open>Machine integers and bytes\<close>

type_synonym byte = "8 word"
type_synonym i32 = "32 word"
type_synonym u32 = "32 word"
type_synonym usize = "64 word"

abbreviation i32_max :: nat where
  "i32_max \<equiv> 2147483647"

abbreviation isize_max :: nat where
  "isize_max \<equiv> 9223372036854775807"

subsection \<open>The compilation target\<close>

text \<open>
  Native byte order, the build profile (\<open>tgt_debug\<close>: overflow checks and debug assertions, as in
  \<open>cargo build\<close>; off in \<open>cargo build --release\<close>) and the constants of the C library.
\<close>

datatype endian = Little_Endian | Big_Endian

record target =
  tgt_endian :: endian
  tgt_debug :: bool
  tgt_AF_INET :: i32
  tgt_AF_INET6 :: i32
  tgt_ERANGE :: i32
  tgt_AI_CANONNAME :: i32
  tgt_SOCK_STREAM :: i32

definition linux_release :: target where
  "linux_release = \<lparr>tgt_endian = Little_Endian, tgt_debug = False, tgt_AF_INET = 2,
     tgt_AF_INET6 = 10, tgt_ERANGE = 34, tgt_AI_CANONNAME = 2, tgt_SOCK_STREAM = 1\<rparr>"

definition linux_debug :: target where
  "linux_debug = linux_release\<lparr>tgt_debug := True\<rparr>"

subsection \<open>Outcomes\<close>

datatype panic =
    Slice_Index
  | Array_Index
  | Arith_Overflow
  | Capacity_Overflow
  | Unwrap_None
  | Unwrap_Err
  | Not_Unicode
  | Thread_Spawn
  | Assertion_Failed

datatype ('e, 'a) outcome =
    Ok 'a
  | Err 'e
  | Panic panic
  | Undefined
  | Diverge

fun obind :: "('e, 'a) outcome \<Rightarrow> ('a \<Rightarrow> ('e, 'b) outcome) \<Rightarrow> ('e, 'b) outcome" where
  "obind (Ok a) f = f a"
| "obind (Err e) f = Err e"
| "obind (Panic p) f = Panic p"
| "obind Undefined f = Undefined"
| "obind Diverge f = Diverge"

text \<open>\<open>ensure!\<close> and \<open>bail!\<close>, \<open>Option::context\<close>, and \<open>?\<close> on a result with another error type.\<close>

definition ensure :: "bool \<Rightarrow> 'e \<Rightarrow> ('e, unit) outcome" where
  "ensure b e = (if b then Ok () else Err e)"

definition ok_or :: "'a option \<Rightarrow> 'e \<Rightarrow> ('e, 'a) outcome" where
  "ok_or x e = (case x of None \<Rightarrow> Err e | Some a \<Rightarrow> Ok a)"

fun from_sum :: "('x \<Rightarrow> 'e) \<Rightarrow> 'x + 'a \<Rightarrow> ('e, 'a) outcome" where
  "from_sum f (Inl x) = Err (f x)"
| "from_sum f (Inr a) = Ok a"

text \<open>A value computed by a loop that may not end.\<close>

fun from_loop :: "('e, 'a) outcome option \<Rightarrow> ('e, 'a) outcome" where
  "from_loop None = Diverge"
| "from_loop (Some r) = r"

text \<open>\<open>iter().map(f).collect::<Result<Vec<_>, _>>()\<close>: the first failure wins.\<close>

fun omap :: "('a \<Rightarrow> ('e, 'b) outcome) \<Rightarrow> 'a list \<Rightarrow> ('e, 'b list) outcome" where
  "omap f [] = Ok []"
| "omap f (x # xs) = obind (f x) (\<lambda>y. obind (omap f xs) (\<lambda>ys. Ok (y # ys)))"

text \<open>A \<open>for\<close> loop over a list that updates a state.\<close>

fun ofold :: "('a \<Rightarrow> 's \<Rightarrow> ('e, 's) outcome) \<Rightarrow> 'a list \<Rightarrow> 's \<Rightarrow> ('e, 's) outcome" where
  "ofold f [] s = Ok s"
| "ofold f (x # xs) s = obind (f x s) (ofold f xs)"

text \<open>\<open>Option::unwrap\<close>.\<close>

fun unwrap :: "'a option \<Rightarrow> ('e, 'a) outcome" where
  "unwrap None = Panic Unwrap_None"
| "unwrap (Some a) = Ok a"

text \<open>\<open>Result::unwrap\<close> and \<open>Result::expect\<close>.\<close>

fun result_unwrap :: "('e, 'a) outcome \<Rightarrow> ('f, 'a) outcome" where
  "result_unwrap (Ok a) = Ok a"
| "result_unwrap (Err e) = Panic Unwrap_Err"
| "result_unwrap (Panic p) = Panic p"
| "result_unwrap Undefined = Undefined"
| "result_unwrap Diverge = Diverge"

text \<open>A run that ends by returning to its caller, with a value or with an error.\<close>

fun returns :: "('e, 'a) outcome \<Rightarrow> bool" where
  "returns (Ok a) = True"
| "returns (Err e) = True"
| "returns _ = False"

lemma obind_assoc: "obind (obind x f) g = obind x (\<lambda>a. obind (f a) g)"
  by (cases x) simp_all

lemma obind_Ok_right [simp]: "obind x Ok = x"
  by (cases x) simp_all

lemma obind_eq_Ok [outcome_elims]: "obind x f = Ok b \<longleftrightarrow> (\<exists>a. x = Ok a \<and> f a = Ok b)"
  by (cases x) simp_all

lemma obind_eq_Err: "obind x f = Err e \<longleftrightarrow> x = Err e \<or> (\<exists>a. x = Ok a \<and> f a = Err e)"
  by (cases x) simp_all

lemma obind_eq_Panic: "obind x f = Panic p \<longleftrightarrow> x = Panic p \<or> (\<exists>a. x = Ok a \<and> f a = Panic p)"
  by (cases x) simp_all

lemma returns_obind: "returns (obind x f) \<longleftrightarrow> returns x \<and> (\<forall>a. x = Ok a \<longrightarrow> returns (f a))"
  by (cases x) simp_all

lemma returns_iff: "returns x \<longleftrightarrow> (\<exists>a. x = Ok a) \<or> (\<exists>e. x = Err e)"
  by (cases x) simp_all

lemma ensure_simps [simp, outcome_simps]:
  "ensure True e = Ok ()"
  "ensure False e = Err e"
  by (simp_all add: ensure_def)

lemma ensure_eq_Ok [outcome_elims]: "ensure b e = Ok u \<longleftrightarrow> b"
  by (simp add: ensure_def)

lemma returns_ensure [simp]: "returns (ensure b e)"
  by (simp add: ensure_def)

lemma ok_or_simps [simp, outcome_simps]:
  "ok_or None e = Err e"
  "ok_or (Some a) e = Ok a"
  by (simp_all add: ok_or_def)

lemma ok_or_eq_Ok [outcome_elims]: "ok_or x e = Ok a \<longleftrightarrow> x = Some a"
  by (cases x) simp_all

lemma returns_ok_or [simp]: "returns (ok_or x e)"
  by (cases x) simp_all

lemma from_sum_eq_Ok [outcome_elims]: "from_sum f s = Ok a \<longleftrightarrow> s = Inr a"
  by (cases s) simp_all

lemma returns_from_sum [simp]: "returns (from_sum f s)"
  by (cases s) simp_all

lemma omap_Ok_map: "(\<And>x. x \<in> set xs \<Longrightarrow> f x = Ok (g x)) \<Longrightarrow> omap f xs = Ok (map g xs)"
  by (induction xs) simp_all

lemma omap_eq_Ok_length: "omap f xs = Ok ys \<Longrightarrow> length ys = length xs"
  by (induction xs arbitrary: ys) (auto simp: obind_eq_Ok)

lemma omap_eq_Ok_iff: "omap f xs = Ok ys \<longleftrightarrow> list_all2 (\<lambda>x y. f x = Ok y) xs ys"
  by (induction xs arbitrary: ys) (auto simp: obind_eq_Ok list_all2_Cons1)

lemma returns_omap: "(\<And>x. x \<in> set xs \<Longrightarrow> returns (f x)) \<Longrightarrow> returns (omap f xs)"
  by (induction xs) (auto simp: returns_obind)

lemma ofold_invariant:
  "P s \<Longrightarrow> (\<And>x s s'. x \<in> set xs \<Longrightarrow> P s \<Longrightarrow> f x s = Ok s' \<Longrightarrow> P s') \<Longrightarrow> ofold f xs s = Ok s' \<Longrightarrow> P s'"
  by (induction xs arbitrary: s) (auto simp: obind_eq_Ok)

subsection \<open>Lists\<close>

lemma take_append_exact [wire_simps]: "length xs = n \<Longrightarrow> take n (xs @ ys) = xs"
  by simp

lemma drop_append_exact [wire_simps]: "length xs = n \<Longrightarrow> drop n (xs @ ys) = ys"
  by simp

lemma length_concat_const:
  "(\<And>x. x \<in> set xs \<Longrightarrow> length (f x) = n) \<Longrightarrow> length (concat (map f xs)) = n * length xs"
  by (induction xs) simp_all

end
