(* ===== verification/Rust_Std.thy ===== *)
theory Rust_Std
  imports Prelude "HOL-Library.List_Lexorder" "HOL-Library.Char_ord"
begin

unbundle bit_operations_syntax

section \<open>The parts of the Rust standard library the program uses\<close>

text \<open>
  Slices and checked integer conversions, native-endian integer encoding, \<open>CStr\<close> and \<open>CString\<close>,
  UTF-8 validation, \<open>str::parse\<close>, \<open>BTreeMap\<close> and \<open>Vec::reserve\<close>.  Two interfaces are stated here
  as locales: \<open>fixed_codec\<close>, a fixed-width encoding with its decoder, and \<open>ordered_map\<close>, what the
  program relies on in \<open>BTreeMap\<close>.
\<close>

subsection \<open>The errors of the program\<close>

text \<open>
  \<open>anyhow::Error\<close> as a datatype: one constructor per place that makes an error, with the values
  its message shows.
\<close>

datatype error =
    Request_Body_Too_Small nat
  | Request_Body_Truncated
  | Wrong_Protocol_Version i32
  | Invalid_Enum_Value i32
  | Try_From_Slice_Error
  | Try_From_Int_Error
  | From_Bytes_With_Nul_Error
  | Utf8_Error
  | Nul_Error
  | Invalid_Uid_String
  | Invalid_Gid_String
  | Errno int
  | Invalid_Key_Len nat nat
  | Unexpected_Gethostbyaddr
  | Unexpected_Gethostbyaddrv6
  | Unexpected_Gethostbyname
  | Unexpected_Gethostbynamev6
  | Mixed_AF
  | Unknown_Group string "string list"
  | Parsing_Bool string
  | Parsing_Int string
  | Cannot_Be_Zero string
  | Could_Not_Bind int

subsection \<open>Slices and integers\<close>

text \<open>\<open>&buf[a..b]\<close> panics when \<open>a > b\<close> or \<open>b > buf.len()\<close>; \<open>xs[i]\<close> panics when out of range.\<close>

definition slice :: "'a list \<Rightarrow> nat \<Rightarrow> nat \<Rightarrow> ('e, 'a list) outcome" where
  "slice xs a b = (if a \<le> b \<and> b \<le> length xs then Ok (take (b - a) (drop a xs)) else Panic Slice_Index)"

definition index :: "'a list \<Rightarrow> nat \<Rightarrow> ('e, 'a) outcome" where
  "index xs i = (if i < length xs then Ok (xs ! i) else Panic Array_Index)"

definition index_update :: "'a list \<Rightarrow> nat \<Rightarrow> 'a \<Rightarrow> ('e, 'a list) outcome" where
  "index_update xs i v = (if i < length xs then Ok (xs[i := v]) else Panic Array_Index)"

text \<open>\<open>i32\<close> addition: overflow panics with overflow checks, and wraps without.\<close>

definition add_i32 :: "target \<Rightarrow> i32 \<Rightarrow> i32 \<Rightarrow> ('e, i32) outcome" where
  "add_i32 t a b =
     (if tgt_debug t \<and> sint (a + b) \<noteq> sint a + sint b then Panic Arith_Overflow else Ok (a + b))"

text \<open>\<open>usize::try_from(i32)\<close>, \<open>i32::try_from(usize)\<close>, \<open>i32::try_from(u32)\<close> and \<open>usize as i32\<close>.\<close>

definition usize_of_i32 :: "i32 \<Rightarrow> (error, nat) outcome" where
  "usize_of_i32 v = (if 0 \<le> sint v then Ok (nat (sint v)) else Err Try_From_Int_Error)"

definition i32_of_usize :: "nat \<Rightarrow> (error, i32) outcome" where
  "i32_of_usize n = (if n \<le> i32_max then Ok (of_nat n) else Err Try_From_Int_Error)"

definition i32_of_u32 :: "u32 \<Rightarrow> (error, i32) outcome" where
  "i32_of_u32 v = (if unat v \<le> i32_max then Ok v else Err Try_From_Int_Error)"

definition usize_as_i32 :: "nat \<Rightarrow> i32" where
  "usize_as_i32 n = of_nat n"

text \<open>\<open>to_ne_bytes\<close> and \<open>from_ne_bytes\<close> of \<open>i32\<close> and \<open>u32\<close>.\<close>

definition to_le_bytes :: "32 word \<Rightarrow> byte list" where
  "to_le_bytes w = [ucast w, ucast (drop_bit 8 w), ucast (drop_bit 16 w), ucast (drop_bit 24 w)]"

fun from_le_bytes :: "byte list \<Rightarrow> 32 word option" where
  "from_le_bytes [a, b, c, d] =
     Some (ucast a OR push_bit 8 (ucast b) OR push_bit 16 (ucast c) OR push_bit 24 (ucast d))"
| "from_le_bytes _ = None"

definition to_ne_bytes :: "target \<Rightarrow> 32 word \<Rightarrow> byte list" where
  "to_ne_bytes t w =
     (case tgt_endian t of Little_Endian \<Rightarrow> to_le_bytes w | Big_Endian \<Rightarrow> rev (to_le_bytes w))"

definition from_ne_bytes :: "target \<Rightarrow> byte list \<Rightarrow> 32 word option" where
  "from_ne_bytes t bs =
     (case tgt_endian t of Little_Endian \<Rightarrow> from_le_bytes bs | Big_Endian \<Rightarrow> from_le_bytes (rev bs))"

text \<open>\<open>bytes.try_into().map(i32::from_ne_bytes)?\<close>: only a slice of four bytes converts.\<close>

definition i32_of_slice :: "target \<Rightarrow> byte list \<Rightarrow> (error, i32) outcome" where
  "i32_of_slice t bs = ok_or (from_ne_bytes t bs) Try_From_Slice_Error"

subsection \<open>C strings\<close>

text \<open>
  A \<open>CString\<close> or \<open>CStr\<close> is the list of its bytes without the terminator, which never contains a
  NUL byte.  \<open>CStr::from_bytes_with_nul\<close> accepts exactly one NUL, at the end.
\<close>

definition cstring_ok :: "byte list \<Rightarrow> bool" where
  "cstring_ok bs \<longleftrightarrow> 0 \<notin> set bs"

definition with_nul :: "byte list \<Rightarrow> byte list" where
  "with_nul bs = bs @ [0]"

definition from_bytes_with_nul :: "byte list \<Rightarrow> (error, byte list) outcome" where
  "from_bytes_with_nul bs =
     (if bs \<noteq> [] \<and> last bs = 0 \<and> cstring_ok (butlast bs) then Ok (butlast bs)
      else Err From_Bytes_With_Nul_Error)"

definition cstring_new :: "byte list \<Rightarrow> (error, byte list) outcome" where
  "cstring_new bs = (if cstring_ok bs then Ok bs else Err Nul_Error)"

subsection \<open>UTF-8\<close>

definition utf8_cont :: "byte \<Rightarrow> bool" where
  "utf8_cont b \<longleftrightarrow> 0x80 \<le> b \<and> b \<le> 0xBF"

text \<open>The table of well-formed sequences that \<open>core::str::from_utf8\<close> checks.\<close>

fun is_utf8 :: "byte list \<Rightarrow> bool" where
  "is_utf8 [] = True"
| "is_utf8 (a # bs) =
     (if a < 0x80 then is_utf8 bs
      else if 0xC2 \<le> a \<and> a \<le> 0xDF then
        (case bs of b # r \<Rightarrow> utf8_cont b \<and> is_utf8 r | _ \<Rightarrow> False)
      else if 0xE0 \<le> a \<and> a \<le> 0xEF then
        (case bs of b # c # r \<Rightarrow>
            (if a = 0xE0 then 0xA0 \<le> b \<and> b \<le> 0xBF
             else if a = 0xED then 0x80 \<le> b \<and> b \<le> 0x9F
             else utf8_cont b) \<and> utf8_cont c \<and> is_utf8 r
         | _ \<Rightarrow> False)
      else if 0xF0 \<le> a \<and> a \<le> 0xF4 then
        (case bs of b # c # d # r \<Rightarrow>
            (if a = 0xF0 then 0x90 \<le> b \<and> b \<le> 0xBF
             else if a = 0xF4 then 0x80 \<le> b \<and> b \<le> 0x8F
             else utf8_cont b) \<and> utf8_cont c \<and> utf8_cont d \<and> is_utf8 r
         | _ \<Rightarrow> False)
      else False)"

definition to_str :: "byte list \<Rightarrow> (error, byte list) outcome" where
  "to_str bs = (if is_utf8 bs then Ok bs else Err Utf8_Error)"

text \<open>Strings that are not on the wire are HOL strings; their UTF-8 bytes are their characters.\<close>

definition bytes_of_string :: "string \<Rightarrow> byte list" where
  "bytes_of_string s = map of_char s"

definition is_unicode :: "string \<Rightarrow> bool" where
  "is_unicode s \<longleftrightarrow> is_utf8 (bytes_of_string s)"

subsection \<open>Parsing strings\<close>

fun strip_prefix :: "string \<Rightarrow> string \<Rightarrow> string option" where
  "strip_prefix [] s = Some s"
| "strip_prefix (p # ps) [] = None"
| "strip_prefix (p # ps) (c # cs) = (if p = c then strip_prefix ps cs else None)"

definition parse_bool :: "string \<Rightarrow> bool option" where
  "parse_bool s = (if s = ''true'' then Some True else if s = ''false'' then Some False else None)"

definition digit_val :: "char \<Rightarrow> nat option" where
  "digit_val c =
     (let n = of_char c in if 48 \<le> n \<and> n \<le> (57::nat) then Some (n - 48) else None)"

text \<open>\<open>usize::from_str\<close>: the digit loop fails on a non-digit and on overflow of 64 bits.\<close>

fun parse_digits :: "nat \<Rightarrow> string \<Rightarrow> nat option" where
  "parse_digits acc [] = Some acc"
| "parse_digits acc (c # cs) =
     (case digit_val c of
        None \<Rightarrow> None
      | Some d \<Rightarrow> (if acc * 10 + d < 2 ^ 64 then parse_digits (acc * 10 + d) cs else None))"

definition parse_usize :: "string \<Rightarrow> usize option" where
  "parse_usize s =
     (if s = [] \<or> s = ''+'' \<or> s = ''-'' then None
      else map_option of_nat (parse_digits 0 (if hd s = CHR ''+'' then tl s else s)))"

text \<open>\<open>str::to_uppercase\<close> on ASCII text, the only text the program applies it to.\<close>

definition to_uppercase :: "string \<Rightarrow> string" where
  "to_uppercase = map (\<lambda>c. let n = of_char c in
     if 97 \<le> n \<and> n \<le> (122::nat) then char_of (n - 32) else c)"

subsection \<open>Vec and BTreeMap\<close>

text \<open>
  \<open>Vec::<u8>::reserve\<close>: the capacity after reserving \<open>additional\<close> bytes beyond \<open>len\<close>, with the
  amortised growth of \<open>RawVec\<close>; more than \<open>isize::MAX\<close> bytes is a capacity overflow.  The allocator
  never refuses: that it has no memory left, which aborts the process, is not modelled.
\<close>

definition vec_reserve :: "nat \<Rightarrow> nat \<Rightarrow> nat \<Rightarrow> ('e, nat) outcome" where
  "vec_reserve len cap additional =
     (if additional \<le> cap - len then Ok cap
      else let new_cap = max 8 (max (cap * 2) (len + additional)) in
        if new_cap \<le> isize_max then Ok new_cap else Panic Capacity_Overflow)"

text \<open>\<open>BTreeMap<Box<str>, V>\<close> as the list of its entries in key order.\<close>

type_synonym 'v btree_map = "(string \<times> 'v) list"

fun btree_insert :: "string \<Rightarrow> 'v \<Rightarrow> 'v btree_map \<Rightarrow> 'v btree_map" where
  "btree_insert k v [] = [(k, v)]"
| "btree_insert k v ((k', v') # m) =
     (if k < k' then (k, v) # (k', v') # m
      else if k = k' then (k, v) # m
      else (k', v') # btree_insert k v m)"

fun btree_get :: "'v btree_map \<Rightarrow> string \<Rightarrow> 'v option" where
  "btree_get [] k = None"
| "btree_get ((k', v') # m) k =
     (if k < k' then None else if k = k' then Some v' else btree_get m k)"

definition btree_keys :: "'v btree_map \<Rightarrow> string list" where
  "btree_keys m = map fst m"

definition btree_ok :: "'v btree_map \<Rightarrow> bool" where
  "btree_ok m \<longleftrightarrow> sorted_wrt (<) (map fst m)"

section \<open>Lemmas of the standard library layer\<close>

subsection \<open>Slices, conversions\<close>

lemma slice_Ok [simp, outcome_simps]:
  "a \<le> b \<Longrightarrow> b \<le> length xs \<Longrightarrow> slice xs a b = Ok (take (b - a) (drop a xs))"
  by (simp add: slice_def)

lemma slice_Panic [simp, outcome_simps]:
  "b < a \<Longrightarrow> slice xs a b = Panic Slice_Index"
  by (simp add: slice_def)

lemma slice_eq_Ok [outcome_elims]:
  "slice xs a b = Ok ys \<longleftrightarrow> a \<le> b \<and> b \<le> length xs \<and> ys = take (b - a) (drop a xs)"
  by (auto simp: slice_def)

lemma index_Ok [simp, outcome_simps]: "i < length xs \<Longrightarrow> index xs i = Ok (xs ! i)"
  by (simp add: index_def)

lemma index_update_Ok [simp, outcome_simps]:
  "i < length xs \<Longrightarrow> index_update xs i v = Ok (xs[i := v])"
  by (simp add: index_update_def)

lemma usize_of_i32_eq_Ok [outcome_elims]:
  "usize_of_i32 v = Ok n \<longleftrightarrow> 0 \<le> sint v \<and> n = nat (sint v)"
  by (auto simp: usize_of_i32_def)

lemma i32_of_usize_eq_Ok [outcome_elims]:
  "i32_of_usize n = Ok v \<longleftrightarrow> n \<le> i32_max \<and> v = of_nat n"
  by (auto simp: i32_of_usize_def)

lemma i32_of_u32_eq_Ok [outcome_elims]:
  "i32_of_u32 w = Ok v \<longleftrightarrow> unat w \<le> i32_max \<and> v = w"
  by (auto simp: i32_of_u32_def)

lemma returns_conversions [simp]:
  "returns (usize_of_i32 v)"
  "returns (i32_of_usize n)"
  "returns (i32_of_u32 w)"
  "returns (i32_of_slice t bs)"
  by (simp_all add: usize_of_i32_def i32_of_usize_def i32_of_u32_def i32_of_slice_def)

lemma unat_of_nat_i32: "n \<le> i32_max \<Longrightarrow> unat (of_nat n :: i32) = n"
  by (simp add: unat_of_nat)

lemma sint_of_nat_i32: "n \<le> i32_max \<Longrightarrow> sint (of_nat n :: i32) = int n"
  by (simp add: signed_of_nat signed_take_bit_int_eq_self)

subsection \<open>Native-endian integers: a fixed-width codec\<close>

text \<open>
  What a client of an encoding relies on: the encoder is injective with a fixed width, and the
  decoder inverts it and accepts nothing else.  \<open>peel\<close> reads one value off the front of a
  message and \<open>peels\<close> a given number of them.
\<close>

definition peel :: "nat \<Rightarrow> (byte list \<Rightarrow> 'a option) \<Rightarrow> byte list \<Rightarrow> ('a \<times> byte list) option" where
  "peel w dec bs = (case dec (take w bs) of None \<Rightarrow> None | Some x \<Rightarrow> Some (x, drop w bs))"

fun peels :: "nat \<Rightarrow> (byte list \<Rightarrow> 'a option) \<Rightarrow> nat \<Rightarrow> byte list \<Rightarrow> ('a list \<times> byte list) option"
where
  "peels w dec 0 bs = Some ([], bs)"
| "peels w dec (Suc n) bs =
     (case peel w dec bs of
        None \<Rightarrow> None
      | Some (x, bs') \<Rightarrow>
          (case peels w dec n bs' of None \<Rightarrow> None | Some (xs, r) \<Rightarrow> Some (x # xs, r)))"

locale fixed_codec =
  fixes enc :: "'a \<Rightarrow> byte list"
    and dec :: "byte list \<Rightarrow> 'a option"
    and width :: nat
  assumes dec_enc: "dec (enc x) = Some x"
    and enc_dec: "dec bs = Some x \<Longrightarrow> enc x = bs"
    and length_enc: "length (enc x) = width"
begin

lemma dec_length: "dec bs = Some x \<Longrightarrow> length bs = width"
  using enc_dec length_enc by blast

lemma enc_inject: "enc x = enc y \<longleftrightarrow> x = y"
  using dec_enc by (metis option.inject)

lemma peel_enc: "peel width dec (enc x @ r) = Some (x, r)"
  by (simp add: peel_def length_enc dec_enc)

lemma peel_sound: "peel width dec bs = Some (x, r) \<Longrightarrow> bs = enc x @ r"
  by (auto simp: peel_def enc_dec split: option.splits)

lemma length_concat_enc: "length (concat (map enc xs)) = width * length xs"
  by (rule length_concat_const) (rule length_enc)

lemma peels_enc: "peels width dec (length xs) (concat (map enc xs) @ r) = Some (xs, r)"
  by (induction xs) (simp_all add: peel_enc)

lemma peels_sound: "peels width dec n bs = Some (xs, r) \<Longrightarrow> bs = concat (map enc xs) @ r"
  by (induction n arbitrary: bs xs)
    (auto split: option.splits prod.splits dest!: peel_sound)

end

lemma from_to_le_bytes: "from_le_bytes (to_le_bytes w) = Some w"
proof -
  have "ucast (ucast w :: byte) OR push_bit 8 (ucast (ucast (drop_bit 8 w) :: byte))
      OR push_bit 16 (ucast (ucast (drop_bit 16 w) :: byte))
      OR push_bit 24 (ucast (ucast (drop_bit 24 w) :: byte)) = w"
    (is "?l = w")
  proof (rule bit_word_eqI)
    fix n assume "n < LENGTH(32)"
    then consider "n < 8" | "8 \<le> n" "n < 16" | "16 \<le> n" "n < 24" | "24 \<le> n" "n < 32"
      by fastforce
    then show "bit ?l n = bit w n"
      by cases (auto simp: bit_simps)
  qed
  then show ?thesis by (simp add: to_le_bytes_def)
qed

lemma not_bit_byte: "8 \<le> n \<Longrightarrow> \<not> bit (b :: byte) n"
  using bit_imp_le_length [of b n] by auto

lemma to_from_le_bytes: "from_le_bytes bs = Some w \<Longrightarrow> to_le_bytes w = bs"
  by (induction bs rule: from_le_bytes.induct)
    (auto simp: to_le_bytes_def bit_simps not_bit_byte intro!: bit_word_eqI)

lemma length_to_le_bytes [simp]: "length (to_le_bytes w) = 4"
  by (simp add: to_le_bytes_def)

interpretation ne32: fixed_codec "to_ne_bytes t" "from_ne_bytes t" 4 for t
proof
  show "from_ne_bytes t (to_ne_bytes t x) = Some x" for x
    by (simp add: to_ne_bytes_def from_ne_bytes_def from_to_le_bytes split: endian.split)
  show "to_ne_bytes t x = bs" if "from_ne_bytes t bs = Some x" for bs x
    using that to_from_le_bytes [of "rev bs" x]
    by (auto simp: to_ne_bytes_def from_ne_bytes_def to_from_le_bytes split: endian.splits)
  show "length (to_ne_bytes t x) = 4" for x
    by (simp add: to_ne_bytes_def split: endian.split)
qed

lemmas ne32_simps [simp, wire_simps] = ne32.length_enc ne32.dec_enc ne32.enc_inject

lemma from_ne_bytes_total: "length bs = 4 \<Longrightarrow> \<exists>w. from_ne_bytes t bs = Some w"
  by (auto simp: from_ne_bytes_def length_Suc_conv numeral_eq_Suc split: endian.split)

lemma i32_of_slice_eq_Ok [outcome_elims]: "i32_of_slice t bs = Ok v \<longleftrightarrow> bs = to_ne_bytes t v"
  by (auto simp: i32_of_slice_def ok_or_eq_Ok ne32.enc_dec)

lemma i32_of_slice_total: "length bs = 4 \<Longrightarrow> \<exists>v. i32_of_slice t bs = Ok v"
  using from_ne_bytes_total [of bs t] by (auto simp: i32_of_slice_def)

lemma i32_of_slice_enc [simp]: "i32_of_slice t (to_ne_bytes t v) = Ok v"
  by (simp add: i32_of_slice_eq_Ok)

subsection \<open>C strings\<close>

lemma length_with_nul [simp, wire_simps]: "length (with_nul bs) = Suc (length bs)"
  by (simp add: with_nul_def)

lemma with_nul_inject [simp]: "with_nul a = with_nul b \<longleftrightarrow> a = b"
  by (simp add: with_nul_def)

lemma from_bytes_with_nul_eq_Ok [outcome_elims]:
  "from_bytes_with_nul bs = Ok s \<longleftrightarrow> bs = with_nul s \<and> cstring_ok s"
  by (auto simp: from_bytes_with_nul_def with_nul_def) (metis append_butlast_last_id)

lemma cstring_new_eq_Ok [outcome_elims]: "cstring_new bs = Ok s \<longleftrightarrow> cstring_ok bs \<and> s = bs"
  by (auto simp: cstring_new_def)

lemma to_str_eq_Ok [outcome_elims]: "to_str bs = Ok s \<longleftrightarrow> is_utf8 bs \<and> s = bs"
  by (auto simp: to_str_def)

lemma returns_strings [simp]:
  "returns (from_bytes_with_nul bs)"
  "returns (cstring_new bs)"
  "returns (to_str bs)"
  by (simp_all add: from_bytes_with_nul_def cstring_new_def to_str_def)

lemma is_utf8_ascii: "\<forall>b \<in> set bs. b < 0x80 \<Longrightarrow> is_utf8 bs"
  by (induction bs) simp_all

lemma of_char_ascii: "\<not> digit7 c \<Longrightarrow> (of_char c :: byte) < 0x80"
  by (cases c) (simp add: of_char_Char)

lemma is_unicode_ascii: "\<forall>c \<in> set s. \<not> digit7 c \<Longrightarrow> is_unicode s"
  by (auto simp: is_unicode_def bytes_of_string_def of_char_ascii intro!: is_utf8_ascii)

subsection \<open>Parsing strings\<close>

lemma strip_prefix_eq_Some: "strip_prefix p s = Some r \<longleftrightarrow> s = p @ r"
  by (induction p s rule: strip_prefix.induct) auto

lemma strip_prefix_append [simp]: "strip_prefix p (p @ r) = Some r"
  by (simp add: strip_prefix_eq_Some)

lemma parse_digits_bound: "parse_digits acc s = Some n \<Longrightarrow> acc < 2 ^ 64 \<Longrightarrow> n < 2 ^ 64"
  by (induction acc s rule: parse_digits.induct) (auto split: option.splits if_splits)

subsection \<open>BTreeMap: an ordered map\<close>

text \<open>The laws the configuration code relies on, and the map as the list of its entries.\<close>

locale ordered_map =
  fixes empty :: 'm
    and insert :: "'k::linorder \<Rightarrow> 'v \<Rightarrow> 'm \<Rightarrow> 'm"
    and get :: "'m \<Rightarrow> 'k \<Rightarrow> 'v option"
    and keys :: "'m \<Rightarrow> 'k list"
    and invar :: "'m \<Rightarrow> bool"
  assumes get_empty: "get empty k = None"
    and get_insert: "invar m \<Longrightarrow> get (insert k v m) k' = (if k' = k then Some v else get m k')"
    and keys_dom: "invar m \<Longrightarrow> set (keys m) = {k. get m k \<noteq> None}"
    and keys_sorted: "invar m \<Longrightarrow> sorted_wrt (<) (keys m)"
    and invar_empty: "invar empty"
    and invar_insert: "invar m \<Longrightarrow> invar (insert k v m)"
begin

lemma invar_fold: "invar m \<Longrightarrow> invar (fold (\<lambda>(k, v). insert (f k) v) kvs m)"
  by (induction kvs arbitrary: m) (auto simp: invar_insert)

lemma get_fold:
  "invar m \<Longrightarrow> inj_on f (fst ` set kvs) \<Longrightarrow> distinct (map fst kvs) \<Longrightarrow>
   get (fold (\<lambda>(k, v). insert (f k) v) kvs m) k' =
     (case map_of (map (\<lambda>(k, v). (f k, v)) kvs) k' of Some v \<Rightarrow> Some v | None \<Rightarrow> get m k')"
proof (induction kvs arbitrary: m)
  case Nil
  then show ?case by simp
next
  case (Cons kv kvs)
  obtain k v where kv: "kv = (k, v)" by fastforce
  have fresh: "map_of (map (\<lambda>(k, v). (f k, v)) kvs) (f k) = None"
    using Cons.prems(2,3) unfolding kv map_of_eq_None_iff
    by (auto simp: inj_on_def image_iff)
  show ?case
    using Cons.IH [OF invar_insert [OF Cons.prems(1)]] Cons.prems fresh
    by (auto simp: kv get_insert inj_on_def split: option.splits)
qed

lemma keys_empty: "keys empty = []"
proof -
  have "set (keys empty) = {}" by (simp add: keys_dom invar_empty get_empty)
  then show ?thesis by simp
qed

end

lemma btree_get_less: "btree_ok m \<Longrightarrow> (\<And>k'. k' \<in> fst ` set m \<Longrightarrow> k < k') \<Longrightarrow> btree_get m k = None"
  by (cases m) auto

lemma set_btree_insert: "fst ` set (btree_insert k v m) = insert k (fst ` set m)"
  by (induction k v m rule: btree_insert.induct) auto

lemma btree_ok_insert: "btree_ok m \<Longrightarrow> btree_ok (btree_insert k v m)"
  by (induction k v m rule: btree_insert.induct)
    (auto simp: btree_ok_def simp flip: set_map simp: set_btree_insert [unfolded set_map [symmetric]])

lemma btree_get_insert:
  "btree_ok m \<Longrightarrow> btree_get (btree_insert k v m) k' = (if k' = k then Some v else btree_get m k')"
  by (induction k v m rule: btree_insert.induct) (auto simp: btree_ok_def)

lemma btree_get_dom: "btree_ok m \<Longrightarrow> btree_get m k \<noteq> None \<longleftrightarrow> k \<in> fst ` set m"
  by (induction m k rule: btree_get.induct) (auto simp: btree_ok_def)

interpretation btree: ordered_map "[]" btree_insert btree_get btree_keys btree_ok
proof
  show "set (btree_keys m) = {k. btree_get m k \<noteq> None}" if "btree_ok m" for m :: "'v btree_map"
    using btree_get_dom [OF that] by (auto simp: btree_keys_def)
qed (simp_all add: btree_get_insert btree_ok_insert, simp_all add: btree_ok_def btree_keys_def)

end
