(* ===== verification/Protocol.thy ===== *)
theory Protocol
  imports Rust_Std
begin

section \<open>The nscd protocol: requests and response headers\<close>

text \<open>
  Model of \<open>src/protocol.rs\<close>: the request types with their discriminants, \<open>Request::parse\<close>, and
  the response headers with their serialisation.  The numeric conversion of a request type
  (\<open>FromPrimitive::from_i32\<close>, derived by the crate \<open>num-derive\<close>) is a parameter.  The locale
  \<open>word_layout\<close> states what makes a struct of 32-bit fields a fixed-width codec; it is interpreted
  for each of the five headers.
\<close>

subsection \<open>Request types\<close>

definition VERSION :: i32 where
  "VERSION = 2"

definition H_ERRNO_NETDB_SUCCESS :: i32 where
  "H_ERRNO_NETDB_SUCCESS = 0"

definition H_ERRNO_TRY_AGAIN :: i32 where
  "H_ERRNO_TRY_AGAIN = 2"

datatype RequestType =
    GETPWBYNAME
  | GETPWBYUID
  | GETGRBYNAME
  | GETGRBYGID
  | GETHOSTBYNAME
  | GETHOSTBYNAMEv6
  | GETHOSTBYADDR
  | GETHOSTBYADDRv6
  | SHUTDOWN
  | GETSTAT
  | INVALIDATE
  | GETFDPW
  | GETFDGR
  | GETFDHST
  | GETAI
  | INITGROUPS
  | GETSERVBYNAME
  | GETSERVBYPORT
  | GETFDSERV
  | GETNETGRENT
  | INNETGR
  | GETFDNETGR
  | LASTREQ

text \<open>\<open>ty as usize\<close>: the discriminants count up from 0 in declaration order.\<close>

fun discriminant :: "RequestType \<Rightarrow> nat" where
  "discriminant GETPWBYNAME = 0"
| "discriminant GETPWBYUID = 1"
| "discriminant GETGRBYNAME = 2"
| "discriminant GETGRBYGID = 3"
| "discriminant GETHOSTBYNAME = 4"
| "discriminant GETHOSTBYNAMEv6 = 5"
| "discriminant GETHOSTBYADDR = 6"
| "discriminant GETHOSTBYADDRv6 = 7"
| "discriminant SHUTDOWN = 8"
| "discriminant GETSTAT = 9"
| "discriminant INVALIDATE = 10"
| "discriminant GETFDPW = 11"
| "discriminant GETFDGR = 12"
| "discriminant GETFDHST = 13"
| "discriminant GETAI = 14"
| "discriminant INITGROUPS = 15"
| "discriminant GETSERVBYNAME = 16"
| "discriminant GETSERVBYPORT = 17"
| "discriminant GETFDSERV = 18"
| "discriminant GETNETGRENT = 19"
| "discriminant INNETGR = 20"
| "discriminant GETFDNETGR = 21"
| "discriminant LASTREQ = 22"

definition request_types :: "RequestType list" where
  "request_types = [GETPWBYNAME, GETPWBYUID, GETGRBYNAME, GETGRBYGID, GETHOSTBYNAME,
     GETHOSTBYNAMEv6, GETHOSTBYADDR, GETHOSTBYADDRv6, SHUTDOWN, GETSTAT, INVALIDATE, GETFDPW,
     GETFDGR, GETFDHST, GETAI, INITGROUPS, GETSERVBYNAME, GETSERVBYPORT, GETFDSERV, GETNETGRENT,
     INNETGR, GETFDNETGR, LASTREQ]"

text \<open>
  What \<open>#[derive(FromPrimitive)]\<close> documents of \<open>from_i32\<close>: it yields a variant exactly for the
  variant's discriminant.
\<close>

type_synonym from_i32 = "i32 \<Rightarrow> RequestType option"

definition from_primitive_law :: "from_i32 \<Rightarrow> bool" where
  "from_primitive_law f \<longleftrightarrow> (\<forall>n ty. f n = Some ty \<longleftrightarrow> n = of_nat (discriminant ty))"

definition from_i32_by_search :: from_i32 where
  "from_i32_by_search n = List.find (\<lambda>ty. of_nat (discriminant ty) = n) request_types"

subsection \<open>Requests\<close>

record Request =
  req_ty :: RequestType
  req_key :: "byte list"

definition parse :: "target \<Rightarrow> from_i32 \<Rightarrow> byte list \<Rightarrow> (error, Request) outcome" where
  "parse t from_i32 buf =
     obind (ensure (12 \<le> length buf) (Request_Body_Too_Small (length buf))) (\<lambda>_.
     obind (obind (slice buf 0 4) (i32_of_slice t)) (\<lambda>version.
     obind (ensure (version = VERSION) (Wrong_Protocol_Version version)) (\<lambda>_.
     obind (obind (slice buf 4 8) (i32_of_slice t)) (\<lambda>type_val.
     obind (ok_or (from_i32 type_val) (Invalid_Enum_Value type_val)) (\<lambda>ty.
     obind (obind (slice buf 8 12) (i32_of_slice t)) (\<lambda>key_len.
     obind (obind (add_i32 t 12 key_len) usize_of_i32) (\<lambda>key_end.
     obind (ensure (key_end \<le> length buf) Request_Body_Truncated) (\<lambda>_.
     obind (slice buf 12 key_end) (\<lambda>key.
     Ok \<lparr>req_ty = ty, req_key = key\<rparr>)))))))))"

subsection \<open>Response headers\<close>

text \<open>
  Every field of a header is 32 bits wide, so \<open>repr(C)\<close> lays the fields out in declaration order
  without padding and \<open>as_slice\<close> is the concatenation of their native-endian bytes.
\<close>

record PwResponseHeader =
  pw_version :: i32
  pw_found :: i32
  pw_name_len :: i32
  pw_passwd_len :: i32
  pw_uid :: u32
  pw_gid :: u32
  pw_gecos_len :: i32
  pw_dir_len :: i32
  pw_shell_len :: i32

definition PwResponseHeader_default :: PwResponseHeader where
  "PwResponseHeader_default = \<lparr>pw_version = 0, pw_found = 0, pw_name_len = 0, pw_passwd_len = 0,
     pw_uid = 0, pw_gid = 0, pw_gecos_len = 0, pw_dir_len = 0, pw_shell_len = 0\<rparr>"

definition PwResponseHeader_as_slice :: "target \<Rightarrow> PwResponseHeader \<Rightarrow> byte list" where
  "PwResponseHeader_as_slice t h =
     to_ne_bytes t (pw_version h) @ to_ne_bytes t (pw_found h) @
     to_ne_bytes t (pw_name_len h) @ to_ne_bytes t (pw_passwd_len h) @
     to_ne_bytes t (pw_uid h) @ to_ne_bytes t (pw_gid h) @
     to_ne_bytes t (pw_gecos_len h) @ to_ne_bytes t (pw_dir_len h) @
     to_ne_bytes t (pw_shell_len h)"

record GrResponseHeader =
  gr_version :: i32
  gr_found :: i32
  gr_name_len :: i32
  gr_passwd_len :: i32
  gr_gid :: u32
  gr_mem_cnt :: i32

definition GrResponseHeader_default :: GrResponseHeader where
  "GrResponseHeader_default = \<lparr>gr_version = 0, gr_found = 0, gr_name_len = 0, gr_passwd_len = 0,
     gr_gid = 0, gr_mem_cnt = 0\<rparr>"

definition GrResponseHeader_as_slice :: "target \<Rightarrow> GrResponseHeader \<Rightarrow> byte list" where
  "GrResponseHeader_as_slice t h =
     to_ne_bytes t (gr_version h) @ to_ne_bytes t (gr_found h) @
     to_ne_bytes t (gr_name_len h) @ to_ne_bytes t (gr_passwd_len h) @
     to_ne_bytes t (gr_gid h) @ to_ne_bytes t (gr_mem_cnt h)"

record InitgroupsResponseHeader =
  ig_version :: i32
  ig_found :: i32
  ig_ngrps :: i32

definition InitgroupsResponseHeader_as_slice :: "target \<Rightarrow> InitgroupsResponseHeader \<Rightarrow> byte list"
where
  "InitgroupsResponseHeader_as_slice t h =
     to_ne_bytes t (ig_version h) @ to_ne_bytes t (ig_found h) @ to_ne_bytes t (ig_ngrps h)"

datatype IpAddr = V4 "byte list" | V6 "byte list"

record AiResponse =
  ai_addrs :: "IpAddr list"
  ai_canon_name :: "byte list"

record AiResponseHeader =
  ai_version :: i32
  ai_found :: i32
  ai_naddrs :: i32
  ai_addrslen :: i32
  ai_canonlen :: i32
  ai_error :: i32

definition AiResponseHeader_as_slice :: "target \<Rightarrow> AiResponseHeader \<Rightarrow> byte list" where
  "AiResponseHeader_as_slice t h =
     to_ne_bytes t (ai_version h) @ to_ne_bytes t (ai_found h) @
     to_ne_bytes t (ai_naddrs h) @ to_ne_bytes t (ai_addrslen h) @
     to_ne_bytes t (ai_canonlen h) @ to_ne_bytes t (ai_error h)"

definition AI_RESPONSE_HEADER_NOT_FOUND :: AiResponseHeader where
  "AI_RESPONSE_HEADER_NOT_FOUND = \<lparr>ai_version = VERSION, ai_found = 0, ai_naddrs = 0,
     ai_addrslen = 0, ai_canonlen = 0, ai_error = 0\<rparr>"

record HstResponseHeader =
  hst_version :: i32
  hst_found :: i32
  hst_name_len :: i32
  hst_aliases_cnt :: i32
  hst_addrtype :: i32
  hst_length :: i32
  hst_addr_list_cnt :: i32
  hst_error :: i32

definition HstResponseHeader_as_slice :: "target \<Rightarrow> HstResponseHeader \<Rightarrow> byte list" where
  "HstResponseHeader_as_slice t h =
     to_ne_bytes t (hst_version h) @ to_ne_bytes t (hst_found h) @
     to_ne_bytes t (hst_name_len h) @ to_ne_bytes t (hst_aliases_cnt h) @
     to_ne_bytes t (hst_addrtype h) @ to_ne_bytes t (hst_length h) @
     to_ne_bytes t (hst_addr_list_cnt h) @ to_ne_bytes t (hst_error h)"

subsection \<open>The wire format of a request, as a client writes it\<close>

definition request_header :: "target \<Rightarrow> RequestType \<Rightarrow> i32 \<Rightarrow> byte list" where
  "request_header t ty key_len =
     to_ne_bytes t VERSION @ to_ne_bytes t (of_nat (discriminant ty)) @ to_ne_bytes t key_len"

definition encode_request :: "target \<Rightarrow> Request \<Rightarrow> byte list" where
  "encode_request t r = request_header t (req_ty r) (of_nat (length (req_key r))) @ req_key r"

section \<open>Lemmas of the protocol\<close>

subsection \<open>Request types\<close>

lemma nth_request_types [simp]: "request_types ! discriminant ty = ty"
  by (cases ty) (simp_all add: request_types_def)

lemma length_request_types [simp]: "length request_types = 23"
  by (simp add: request_types_def)

lemma discriminant_less [simp]: "discriminant ty < 23"
  by (cases ty) simp_all

lemma discriminant_inject [simp]: "discriminant a = discriminant b \<longleftrightarrow> a = b"
  using nth_request_types by metis

lemma discriminant_nth: "i < 23 \<Longrightarrow> discriminant (request_types ! i) = i"
  by (auto simp: request_types_def less_Suc_eq numeral_eq_Suc)

lemma set_request_types: "set request_types = UNIV"
proof -
  have "ty \<in> set request_types" for ty
    using nth_mem [of "discriminant ty" request_types] by simp
  then show ?thesis by auto
qed

instantiation RequestType :: linorder
begin

definition less_eq_RequestType :: "RequestType \<Rightarrow> RequestType \<Rightarrow> bool" where
  "a \<le> b \<longleftrightarrow> discriminant a \<le> discriminant b"

definition less_RequestType :: "RequestType \<Rightarrow> RequestType \<Rightarrow> bool" where
  "a < b \<longleftrightarrow> discriminant a < discriminant b"

instance
  by standard (auto simp: less_eq_RequestType_def less_RequestType_def simp flip: discriminant_inject)

end

lemma of_nat_discriminant_inject [simp]:
  "(of_nat (discriminant a) :: i32) = of_nat (discriminant b) \<longleftrightarrow> a = b"
proof -
  have "unat (of_nat (discriminant c) :: i32) = discriminant c" for c
    using discriminant_less [of c] by (simp add: unat_of_nat_i32 del: discriminant_less)
  then show ?thesis by (metis discriminant_inject)
qed

lemma from_primitive_lawD [simp]:
  "from_primitive_law f \<Longrightarrow> f (of_nat (discriminant ty)) = Some ty"
  by (simp add: from_primitive_law_def)

lemma from_primitive_law_Some:
  "from_primitive_law f \<Longrightarrow> f n = Some ty \<longleftrightarrow> n = of_nat (discriminant ty)"
  by (simp add: from_primitive_law_def)

lemma from_i32_by_search_law: "from_primitive_law from_i32_by_search"
  unfolding from_primitive_law_def from_i32_by_search_def
proof (intro allI)
  fix n :: i32 and ty
  let ?P = "\<lambda>ty. of_nat (discriminant ty) = n"
  show "List.find ?P request_types = Some ty \<longleftrightarrow> n = of_nat (discriminant ty)"
  proof (cases "List.find ?P request_types")
    case None
    then have "\<And>x. \<not> ?P x" by (simp add: find_None_iff set_request_types)
    with None show ?thesis by auto
  next
    case (Some a)
    then have "?P a" by (auto simp: find_Some_iff)
    with Some show ?thesis by auto
  qed
qed

subsection \<open>Headers are fixed-width codecs\<close>

text \<open>
  A struct whose fields are 32-bit words is the list of those words.  Encoding each word and
  concatenating is a codec as soon as the list determines the struct.
\<close>

definition enc_words :: "target \<Rightarrow> ('h \<Rightarrow> 32 word list) \<Rightarrow> 'h \<Rightarrow> byte list" where
  "enc_words t words_of h = concat (map (to_ne_bytes t) (words_of h))"

definition dec_words :: "target \<Rightarrow> (32 word list \<Rightarrow> 'h) \<Rightarrow> nat \<Rightarrow> byte list \<Rightarrow> 'h option" where
  "dec_words t build n bs =
     (case peels 4 (from_ne_bytes t) n bs of Some (ws, []) \<Rightarrow> Some (build ws) | _ \<Rightarrow> None)"

locale word_layout =
  fixes words_of :: "'h \<Rightarrow> 32 word list"
    and build :: "32 word list \<Rightarrow> 'h"
    and n :: nat
  assumes length_fields: "length (words_of h) = n"
    and build_fields: "build (words_of h) = h"
    and fields_build: "length ws = n \<Longrightarrow> words_of (build ws) = ws"

lemma length_peels: "peels w dec n bs = Some (xs, r) \<Longrightarrow> length xs = n"
  by (induction n arbitrary: bs xs) (auto split: option.splits prod.splits)

sublocale word_layout \<subseteq> hdr: fixed_codec "enc_words t words_of" "dec_words t build n" "4 * n" for t
proof
  show "dec_words t build n (enc_words t words_of h) = Some h" for h
    using ne32.peels_enc [of t "words_of h" "[]"]
    by (simp add: dec_words_def enc_words_def length_fields build_fields)
  show "enc_words t words_of h = bs" if "dec_words t build n bs = Some h" for bs h
    using that ne32.peels_sound [of t n bs] length_peels [of 4 "from_ne_bytes t" n bs]
    by (auto simp: dec_words_def enc_words_def fields_build split: option.splits prod.splits list.splits)
  show "length (enc_words t words_of h) = 4 * n" for h
    by (simp add: enc_words_def ne32.length_concat_enc length_fields)
qed

fun PwResponseHeader_fields :: "PwResponseHeader \<Rightarrow> 32 word list" where
  "PwResponseHeader_fields h = [pw_version h, pw_found h, pw_name_len h, pw_passwd_len h, pw_uid h,
     pw_gid h, pw_gecos_len h, pw_dir_len h, pw_shell_len h]"

fun PwResponseHeader_build :: "32 word list \<Rightarrow> PwResponseHeader" where
  "PwResponseHeader_build [a, b, c, d, e, f, g, h, i] = \<lparr>pw_version = a, pw_found = b,
     pw_name_len = c, pw_passwd_len = d, pw_uid = e, pw_gid = f, pw_gecos_len = g, pw_dir_len = h,
     pw_shell_len = i\<rparr>"
| "PwResponseHeader_build _ = PwResponseHeader_default"

fun GrResponseHeader_fields :: "GrResponseHeader \<Rightarrow> 32 word list" where
  "GrResponseHeader_fields h =
     [gr_version h, gr_found h, gr_name_len h, gr_passwd_len h, gr_gid h, gr_mem_cnt h]"

fun GrResponseHeader_build :: "32 word list \<Rightarrow> GrResponseHeader" where
  "GrResponseHeader_build [a, b, c, d, e, f] = \<lparr>gr_version = a, gr_found = b, gr_name_len = c,
     gr_passwd_len = d, gr_gid = e, gr_mem_cnt = f\<rparr>"
| "GrResponseHeader_build _ = GrResponseHeader_default"

fun InitgroupsResponseHeader_fields :: "InitgroupsResponseHeader \<Rightarrow> 32 word list" where
  "InitgroupsResponseHeader_fields h = [ig_version h, ig_found h, ig_ngrps h]"

fun InitgroupsResponseHeader_build :: "32 word list \<Rightarrow> InitgroupsResponseHeader" where
  "InitgroupsResponseHeader_build [a, b, c] = \<lparr>ig_version = a, ig_found = b, ig_ngrps = c\<rparr>"
| "InitgroupsResponseHeader_build _ = \<lparr>ig_version = 0, ig_found = 0, ig_ngrps = 0\<rparr>"

fun AiResponseHeader_fields :: "AiResponseHeader \<Rightarrow> 32 word list" where
  "AiResponseHeader_fields h =
     [ai_version h, ai_found h, ai_naddrs h, ai_addrslen h, ai_canonlen h, ai_error h]"

fun AiResponseHeader_build :: "32 word list \<Rightarrow> AiResponseHeader" where
  "AiResponseHeader_build [a, b, c, d, e, f] = \<lparr>ai_version = a, ai_found = b, ai_naddrs = c,
     ai_addrslen = d, ai_canonlen = e, ai_error = f\<rparr>"
| "AiResponseHeader_build _ = AI_RESPONSE_HEADER_NOT_FOUND"

fun HstResponseHeader_fields :: "HstResponseHeader \<Rightarrow> 32 word list" where
  "HstResponseHeader_fields h = [hst_version h, hst_found h, hst_name_len h, hst_aliases_cnt h,
     hst_addrtype h, hst_length h, hst_addr_list_cnt h, hst_error h]"

fun HstResponseHeader_build :: "32 word list \<Rightarrow> HstResponseHeader" where
  "HstResponseHeader_build [a, b, c, d, e, f, g, h] = \<lparr>hst_version = a, hst_found = b,
     hst_name_len = c, hst_aliases_cnt = d, hst_addrtype = e, hst_length = f,
     hst_addr_list_cnt = g, hst_error = h\<rparr>"
| "HstResponseHeader_build _ = \<lparr>hst_version = 0, hst_found = 0, hst_name_len = 0,
     hst_aliases_cnt = 0, hst_addrtype = 0, hst_length = 0, hst_addr_list_cnt = 0, hst_error = 0\<rparr>"

interpretation pw: word_layout PwResponseHeader_fields PwResponseHeader_build 9
  by standard (auto simp: numeral_eq_Suc length_Suc_conv)

interpretation gr: word_layout GrResponseHeader_fields GrResponseHeader_build 6
  by standard (auto simp: numeral_eq_Suc length_Suc_conv)

interpretation ig: word_layout InitgroupsResponseHeader_fields InitgroupsResponseHeader_build 3
  by standard (auto simp: numeral_eq_Suc length_Suc_conv)

interpretation ai: word_layout AiResponseHeader_fields AiResponseHeader_build 6
  by standard (auto simp: numeral_eq_Suc length_Suc_conv)

interpretation hst: word_layout HstResponseHeader_fields HstResponseHeader_build 8
  by standard (auto simp: numeral_eq_Suc length_Suc_conv)

lemma as_slice_enc_words:
  "PwResponseHeader_as_slice t h1 = enc_words t PwResponseHeader_fields h1"
  "GrResponseHeader_as_slice t h2 = enc_words t GrResponseHeader_fields h2"
  "InitgroupsResponseHeader_as_slice t h3 = enc_words t InitgroupsResponseHeader_fields h3"
  "AiResponseHeader_as_slice t h4 = enc_words t AiResponseHeader_fields h4"
  "HstResponseHeader_as_slice t h5 = enc_words t HstResponseHeader_fields h5"
  by (simp_all add: enc_words_def PwResponseHeader_as_slice_def GrResponseHeader_as_slice_def
      InitgroupsResponseHeader_as_slice_def AiResponseHeader_as_slice_def
      HstResponseHeader_as_slice_def)

lemmas length_as_slice [simp, wire_simps] =
  pw.hdr.length_enc [folded as_slice_enc_words, simplified]
  gr.hdr.length_enc [folded as_slice_enc_words, simplified]
  ig.hdr.length_enc [folded as_slice_enc_words, simplified]
  ai.hdr.length_enc [folded as_slice_enc_words, simplified]
  hst.hdr.length_enc [folded as_slice_enc_words, simplified]

lemmas peel_header [simp, wire_simps] =
  pw.hdr.peel_enc [folded as_slice_enc_words, simplified]
  gr.hdr.peel_enc [folded as_slice_enc_words, simplified]
  ig.hdr.peel_enc [folded as_slice_enc_words, simplified]
  ai.hdr.peel_enc [folded as_slice_enc_words, simplified]
  hst.hdr.peel_enc [folded as_slice_enc_words, simplified]

subsection \<open>Parsing a request\<close>

lemma length_request_header [simp, wire_simps]: "length (request_header t ty v) = 12"
  by (simp add: request_header_def)

text \<open>What \<open>parse\<close> does once the twelve bytes of the header are read.\<close>

lemma parse_words:
  "parse t f (to_ne_bytes t ver @ to_ne_bytes t tv @ to_ne_bytes t v @ rest) =
     (if ver \<noteq> VERSION then Err (Wrong_Protocol_Version ver)
      else case f tv of
        None \<Rightarrow> Err (Invalid_Enum_Value tv)
      | Some ty \<Rightarrow>
          obind (obind (add_i32 t 12 v) usize_of_i32) (\<lambda>key_end.
            if 12 + length rest < key_end then Err Request_Body_Truncated
            else if key_end < 12 then Panic Slice_Index
            else Ok \<lparr>req_ty = ty, req_key = take (key_end - 12) rest\<rparr>))"
proof -
  have "obind (ensure (k \<le> 12 + length rest) Request_Body_Truncated)
      (\<lambda>_. obind (slice (to_ne_bytes t ver @ to_ne_bytes t tv @ to_ne_bytes t v @ rest) 12 k)
        (\<lambda>key. Ok \<lparr>req_ty = ty, req_key = key\<rparr>)) =
      (if 12 + length rest < k then Err Request_Body_Truncated
       else if k < 12 then Panic Slice_Index else Ok \<lparr>req_ty = ty, req_key = take (k - 12) rest\<rparr>)" for k ty
    by (cases "k \<le> 12 + length rest"; cases "12 \<le> k") simp_all
  then show ?thesis
    by (simp add: parse_def split: option.split)
qed

lemma parse_short: "length buf < 12 \<Longrightarrow> parse t f buf = Err (Request_Body_Too_Small (length buf))"
  by (simp add: parse_def)

lemma split_header:
  assumes "12 \<le> length buf"
  obtains ver tv v rest
  where "buf = to_ne_bytes t ver @ to_ne_bytes t tv @ to_ne_bytes t v @ rest"
proof -
  have word: "\<exists>w. take 4 (drop i buf) = to_ne_bytes t w" if "i + 4 \<le> length buf" for i
    using from_ne_bytes_total [of "take 4 (drop i buf)" t] that
    by (auto dest: ne32.enc_dec [symmetric])
  obtain a b c where "take 4 (drop 0 buf) = to_ne_bytes t a" "take 4 (drop 4 buf) = to_ne_bytes t b"
    "take 4 (drop 8 buf) = to_ne_bytes t c"
    using word [of 0] word [of 4] word [of 8] assms by auto
  moreover have "buf = take 4 (drop 0 buf) @ take 4 (drop 4 buf) @ take 4 (drop 8 buf) @ drop 12 buf"
    using append_take_drop_id [of 4 buf] append_take_drop_id [of 4 "drop 4 buf"]
      append_take_drop_id [of 4 "drop 8 buf"] by (simp add: add.commute)
  ultimately show ?thesis using that by metis
qed

lemma sint_range_i32: "- 2147483648 \<le> sint v \<and> sint v \<le> 2147483647" for v :: i32
  using sint_ge [of v] sint_lt [of v] by simp

lemma sint_add_12:
  "sint (12 + v :: i32) =
     (if sint v \<le> 2147483635 then 12 + sint v else 12 + sint v - 4294967296)"
proof -
  have eq: "sint (12 + v) = signed_take_bit 31 (12 + sint v)"
    by (simp add: signed_word_eqI sint_word_ariths(1) signed_take_bit_eq)
  show ?thesis
  proof (cases "sint v \<le> 2147483635")
    case True
    then show ?thesis using sint_range_i32 [of v]
      by (simp add: eq signed_take_bit_int_eq_self)
  next
    case False
    have "signed_take_bit 31 (12 + sint v) = signed_take_bit 31 (12 + sint v - 4294967296)"
      by (rule signed_take_bit_eq_iff_take_bit_eq [THEN iffD2])
        (use minus_mod_self2 [of "12 + sint v" 4294967296] in \<open>simp add: take_bit_eq_mod\<close>)
    also have "\<dots> = 12 + sint v - 4294967296"
      using False sint_range_i32 [of v] by (simp add: signed_take_bit_int_eq_self)
    finally show ?thesis using False by (simp add: eq)
  qed
qed

lemma parse_header_eval:
  assumes "from_primitive_law f"
  shows "parse t f (request_header t ty v @ rest) =
    (if 2147483635 < sint v then (if tgt_debug t then Panic Arith_Overflow else Err Try_From_Int_Error)
     else if sint v < - 12 then Err Try_From_Int_Error
     else if int (length rest) < sint v then Err Request_Body_Truncated
     else if sint v < 0 then Panic Slice_Index
     else Ok \<lparr>req_ty = ty, req_key = take (nat (sint v)) rest\<rparr>)"
proof -
  have word_12: "sint (12 :: i32) = 12" by simp
  have "obind (add_i32 t 12 v) usize_of_i32 =
    (if 2147483635 < sint v then (if tgt_debug t then Panic Arith_Overflow else Err Try_From_Int_Error)
     else if sint v < - 12 then Err Try_From_Int_Error else Ok (nat (12 + sint v)))"
    using sint_range_i32 [of v] by (auto simp: add_i32_def usize_of_i32_def sint_add_12 word_12)
  moreover have "nat (12 + sint v) - 12 = nat (sint v)" by simp
  moreover have "12 + length rest < nat (12 + sint v) \<longleftrightarrow> int (length rest) < sint v" by linarith
  moreover have "nat (12 + sint v) < 12 \<longleftrightarrow> sint v < 0" by linarith
  ultimately show ?thesis
    using assms by (simp add: request_header_def parse_words)
qed

text \<open>A parse that does not fail at once has read a well-formed header.\<close>

lemma parse_cases [consumes 1, case_names short version type_val header]:
  assumes law: "from_primitive_law f"
  obtains (short) "length buf < 12" "parse t f buf = Err (Request_Body_Too_Small (length buf))"
  | (version) ver where "ver \<noteq> VERSION" "parse t f buf = Err (Wrong_Protocol_Version ver)"
  | (type_val) tv where "f tv = None" "parse t f buf = Err (Invalid_Enum_Value tv)"
  | (header) ty v rest where "buf = request_header t ty v @ rest"
proof (cases "length buf < 12")
  case True
  then show ?thesis using parse_short that(1) by blast
next
  case False
  then have "12 \<le> length buf" by simp
  then obtain ver tv v rest
    where buf: "buf = to_ne_bytes t ver @ to_ne_bytes t tv @ to_ne_bytes t v @ rest"
    by (rule split_header)
  show ?thesis
  proof (cases "ver = VERSION \<and> f tv \<noteq> None")
    case True
    then obtain ty where "tv = of_nat (discriminant ty)"
      using law by (auto simp: from_primitive_law_Some)
    with True buf show ?thesis using that(4) by (simp add: request_header_def)
  next
    case bad: False
    show ?thesis
    proof (cases "ver = VERSION")
      case True
      with bad buf show ?thesis by (intro that(3) [of tv]) (simp_all add: parse_words)
    next
      case False
      with buf show ?thesis by (intro that(2) [of ver]) (simp_all add: parse_words)
    qed
  qed
qed

lemma request_header_inject:
  "request_header t ty v @ r = request_header t ty' v' @ r' \<longleftrightarrow> ty = ty' \<and> v = v' \<and> r = r'"
  by (auto simp: request_header_def)

subsection \<open>Soundness, completeness and panics of the parser\<close>

lemma parse_Ok_iff:
  assumes "from_primitive_law f"
  shows "parse t f buf = Ok r \<longleftrightarrow>
    12 + length (req_key r) \<le> i32_max \<and> (\<exists>junk. buf = encode_request t r @ junk)"
proof
  assume ok: "parse t f buf = Ok r"
  from assms show "12 + length (req_key r) \<le> i32_max \<and> (\<exists>junk. buf = encode_request t r @ junk)"
  proof (cases rule: parse_cases [where buf = buf and t = t])
    case (header ty v rest)
    with ok assms have v: "0 \<le> sint v" "sint v \<le> 2147483635" "sint v \<le> int (length rest)"
      and r: "r = \<lparr>req_ty = ty, req_key = take (nat (sint v)) rest\<rparr>"
      by (auto simp: parse_header_eval split: if_splits)
    then have "length (req_key r) = nat (sint v)" by simp
    moreover have "of_nat (nat (sint v)) = v" using v by simp
    moreover have "buf = encode_request t r @ drop (nat (sint v)) rest"
      using v r header by (simp add: encode_request_def)
    ultimately show ?thesis using v by auto
  qed (use ok in auto)
next
  assume "12 + length (req_key r) \<le> i32_max \<and> (\<exists>junk. buf = encode_request t r @ junk)"
  then show "parse t f buf = Ok r"
    using assms by (auto simp: encode_request_def parse_header_eval sint_of_nat_i32)
qed

lemma parse_Panic_iff:
  assumes "from_primitive_law f"
  shows "parse t f buf = Panic p \<longleftrightarrow>
    (\<exists>ty v rest. buf = request_header t ty v @ rest \<and>
       (p = Slice_Index \<and> - 12 \<le> sint v \<and> sint v < 0 \<or>
        p = Arith_Overflow \<and> tgt_debug t \<and> 2147483635 < sint v))"
    (is "_ \<longleftrightarrow> ?bad")
proof
  assume panic: "parse t f buf = Panic p"
  from assms show ?bad
  proof (cases rule: parse_cases [where buf = buf and t = t])
    case (header ty v rest)
    with panic assms have "p = Slice_Index \<and> - 12 \<le> sint v \<and> sint v < 0 \<or>
        p = Arith_Overflow \<and> tgt_debug t \<and> 2147483635 < sint v"
      by (auto simp: parse_header_eval split: if_splits)
    with header show ?thesis by blast
  qed (use panic in auto)
next
  assume ?bad
  then show "parse t f buf = Panic p" using assms by (auto simp: parse_header_eval)
qed

section \<open>Properties of the protocol\<close>

text \<open>
  C1. \<open>Request::parse\<close> accepts exactly the encodings of requests, possibly followed by further
  bytes, whose total length fits a positive \<open>i32\<close>, and returns the request that was encoded: the
  parser is sound, complete and the inverse of the wire encoding, on every target.
\<close>

theorem parse_accepts_iff_encoded:
  assumes "from_primitive_law f"
  shows "parse t f buf = Ok r \<longleftrightarrow>
    12 + length (req_key r) \<le> i32_max \<and> (\<exists>junk. buf = encode_request t r @ junk)"
  using assms by (rule parse_Ok_iff)

theorem parse_accepts_iff_encoded_witness:
  "parse linux_release from_i32_by_search
     (encode_request linux_release \<lparr>req_ty = GETPWBYUID, req_key = [48, 0]\<rparr> @ [7]) =
   Ok \<lparr>req_ty = GETPWBYUID, req_key = [48, 0]\<rparr>"
  by (rule parse_accepts_iff_encoded [OF from_i32_by_search_law, THEN iffD2]) auto

text \<open>
  C18. \<open>Request::parse\<close> panics exactly on a request whose header is valid but whose key length is
  between \<open>-12\<close> and \<open>-1\<close>: then \<open>key_end\<close> passes every check and \<open>&buf[12..key_end]\<close> has its end
  before its start.  With overflow checks it also panics when \<open>12 + key_len\<close> overflows.
\<close>

theorem parse_panics_iff:
  assumes "from_primitive_law f"
  shows "parse t f buf = Panic p \<longleftrightarrow>
    (\<exists>ty v rest. buf = request_header t ty v @ rest \<and>
       (p = Slice_Index \<and> - 12 \<le> sint v \<and> sint v < 0 \<or>
        p = Arith_Overflow \<and> tgt_debug t \<and> 2147483635 < sint v))"
  using assms by (rule parse_Panic_iff)

theorem parse_panics_iff_witness:
  "parse linux_release from_i32_by_search (request_header linux_release GETPWBYNAME (- 1)) =
   Panic Slice_Index"
  by (rule parse_panics_iff [OF from_i32_by_search_law, THEN iffD2])
    (rule exI [of _ GETPWBYNAME], rule exI [of _ "- 1"], simp)

end
