(* ===== verification/Config.thy ===== *)
theory Config
  imports Protocol
begin

section \<open>Configuration\<close>

text \<open>
  Model of \<open>src/config.rs\<close>: the bit set of ignored request types, the table from database names to
  request types, and \<open>Config::from_env\<close>.  The process environment is the list of its variables in
  the order \<open>env::vars\<close> yields them.  The locale \<open>request_set\<close> is the interface of the set; its
  interpretation shows that the array of bits implements a set of request types.
\<close>

subsection \<open>The bit set\<close>

definition BITSET_SIZE :: nat where
  "BITSET_SIZE = 256"

record RequestTypeSet =
  bits :: "bool list"

definition RequestTypeSet_new :: RequestTypeSet where
  "RequestTypeSet_new = \<lparr>bits = replicate BITSET_SIZE False\<rparr>"

definition RequestTypeSet_insert ::
  "RequestTypeSet \<Rightarrow> RequestType \<Rightarrow> (error, bool \<times> RequestTypeSet) outcome" where
  "RequestTypeSet_insert self val =
     obind (index (bits self) (discriminant val)) (\<lambda>b.
       if b then Ok (False, self)
       else obind (index_update (bits self) (discriminant val) True) (\<lambda>bs.
         Ok (True, self\<lparr>bits := bs\<rparr>)))"

definition RequestTypeSet_contains ::
  "RequestTypeSet \<Rightarrow> RequestType \<Rightarrow> (error, bool) outcome" where
  "RequestTypeSet_contains self val = index (bits self) (discriminant val)"

text \<open>The entries that \<open>Debug\<close> prints, for \<open>i\<close> in \<open>0..(LASTREQ as i32)\<close>.\<close>

fun fmt_entries :: "from_i32 \<Rightarrow> RequestTypeSet \<Rightarrow> nat list \<Rightarrow> (error, RequestType list) outcome" where
  "fmt_entries from_i32 self [] = Ok []"
| "fmt_entries from_i32 self (i # is) =
     obind (unwrap (from_i32 (of_nat i))) (\<lambda>ty.
     obind (RequestTypeSet_contains self ty) (\<lambda>b.
     obind (fmt_entries from_i32 self is) (\<lambda>entries.
     Ok (if b then ty # entries else entries))))"

definition RequestTypeSet_fmt ::
  "from_i32 \<Rightarrow> RequestTypeSet \<Rightarrow> (error, RequestType list) outcome" where
  "RequestTypeSet_fmt from_i32 self = fmt_entries from_i32 self [0..<discriminant LASTREQ]"

subsection \<open>The configuration and the environment\<close>

text \<open>A \<open>Duration\<close> made by \<open>Duration::from_secs\<close> is its number of seconds.\<close>

record Config =
  ignored_request_types :: RequestTypeSet
  worker_count :: usize
  handoff_timeout :: "64 word"

definition OPS_BY_DATABASE :: "(string \<times> RequestType list) list" where
  "OPS_BY_DATABASE =
     [(''group'', [GETGRBYNAME, GETGRBYGID]),
      (''hosts'', [GETHOSTBYADDR, GETHOSTBYADDRv6, GETHOSTBYNAME, GETHOSTBYNAMEv6, GETAI]),
      (''initgroups'', [INITGROUPS]),
      (''netgroup'', [GETNETGRENT, INNETGR]),
      (''passwd'', [GETPWBYNAME, GETPWBYUID]),
      (''services'', [GETSERVBYNAME, GETSERVBYPORT])]"

type_synonym environment = "(string \<times> string) list"

definition ops_map :: "RequestType list btree_map" where
  "ops_map = fold (\<lambda>(op_group, types). btree_insert (to_uppercase op_group) types) OPS_BY_DATABASE []"

definition insert_all :: "RequestType list \<Rightarrow> RequestTypeSet \<Rightarrow> (error, RequestTypeSet) outcome" where
  "insert_all = ofold (\<lambda>ty s. obind (RequestTypeSet_insert s ty) (\<lambda>(_, s'). Ok s'))"

text \<open>The prefix of the variables that name a database.\<close>

definition ignore_prefix :: string where
  "ignore_prefix = ''NSNCD_IGNORE_''"

text \<open>One turn of the loop over \<open>env::vars()\<close>, which panics on a variable that is not Unicode.\<close>

definition ignore_var ::
  "RequestType list btree_map \<Rightarrow> string \<times> string \<Rightarrow> RequestTypeSet \<Rightarrow> (error, RequestTypeSet) outcome"
where
  "ignore_var ops = (\<lambda>(key, val) ignored.
     if \<not> (is_unicode key \<and> is_unicode val) then Panic Not_Unicode
     else case strip_prefix ignore_prefix key of
       None \<Rightarrow> Ok ignored
     | Some op_group \<Rightarrow>
         obind (ok_or (btree_get ops op_group) (Unknown_Group op_group (btree_keys ops))) (\<lambda>types.
         obind (ok_or (parse_bool val) (Parsing_Bool val)) (\<lambda>b.
         if b then insert_all types ignored else Ok ignored)))"

text \<open>\<open>env::var\<close> finds the first variable of that name and fails if its value is not Unicode.\<close>

definition env_var :: "environment \<Rightarrow> string \<Rightarrow> string option" where
  "env_var env var = (case map_of env var of
     None \<Rightarrow> None
   | Some s \<Rightarrow> if is_unicode s then Some s else None)"

definition env_positive_usize :: "environment \<Rightarrow> string \<Rightarrow> usize \<Rightarrow> (error, usize) outcome" where
  "env_positive_usize env var dflt = (case env_var env var of
     None \<Rightarrow> Ok dflt
   | Some s \<Rightarrow>
       obind (ok_or (parse_usize s) (Parsing_Int s)) (\<lambda>val.
       if 0 < val then Ok val else Err (Cannot_Be_Zero var)))"

definition from_env :: "environment \<Rightarrow> (error, Config) outcome" where
  "from_env env =
     obind (ofold (ignore_var ops_map) env RequestTypeSet_new) (\<lambda>ignored.
     obind (env_positive_usize env ''NSNCD_WORKER_COUNT'' 8) (\<lambda>workers.
     obind (env_positive_usize env ''NSNCD_HANDOFF_TIMEOUT'' 3) (\<lambda>timeout.
     Ok \<lparr>ignored_request_types = ignored, worker_count = workers, handoff_timeout = timeout\<rparr>)))"

definition should_ignore :: "Config \<Rightarrow> RequestType \<Rightarrow> (error, bool) outcome" where
  "should_ignore self ty = RequestTypeSet_contains (ignored_request_types self) ty"

definition Config_default :: Config where
  "Config_default = \<lparr>ignored_request_types = RequestTypeSet_new, worker_count = 8, handoff_timeout = 3\<rparr>"

subsection \<open>What the environment means\<close>

text \<open>
  The reading of the environment that the comment on \<open>from_env\<close> documents.  It lists six variables, one
  for each database of \<open>nsswitch.conf\<close> that \<open>nscd\<close> serves; the table below has them under the names of
  the comment, each with the requests of the \<open>nscd\<close> protocol that look its database up.  Nothing of it
  refers to the table or the prefix of the code.  A variable with value \<open>true\<close> ignores the requests of
  its database; a variable that starts with \<open>NSNCD_IGNORE_\<close> is one of the six and is \<open>true\<close> or
  \<open>false\<close>; the two integer variables are positive decimal numbers.
\<close>

definition documented_databases :: "(string \<times> RequestType list) list" where
  "documented_databases =
     [(''NSNCD_IGNORE_GROUP'', [GETGRBYNAME, GETGRBYGID]),
      (''NSNCD_IGNORE_HOSTS'', [GETHOSTBYADDR, GETHOSTBYADDRv6, GETHOSTBYNAME, GETHOSTBYNAMEv6, GETAI]),
      (''NSNCD_IGNORE_INITGROUPS'', [INITGROUPS]),
      (''NSNCD_IGNORE_NETGROUP'', [GETNETGRENT, INNETGR]),
      (''NSNCD_IGNORE_PASSWD'', [GETPWBYNAME, GETPWBYUID]),
      (''NSNCD_IGNORE_SERVICES'', [GETSERVBYNAME, GETSERVBYPORT])]"

definition ignored_by :: "environment \<Rightarrow> RequestType set" where
  "ignored_by env = {ty. \<exists>var tys. (var, tys) \<in> set documented_databases \<and> ty \<in> set tys \<and>
     (var, ''true'') \<in> set env}"

definition var_ok :: "string \<times> string \<Rightarrow> bool" where
  "var_ok = (\<lambda>(k, v). is_unicode k \<and> is_unicode v \<and>
     (take 13 k = ''NSNCD_IGNORE_'' \<longrightarrow>
        k \<in> fst ` set documented_databases \<and> v \<in> {''true'', ''false''}))"

definition decimal :: "string \<Rightarrow> nat" where
  "decimal = foldl (\<lambda>n c. n * 10 + (of_char c - 48)) 0"

definition is_decimal :: "string \<Rightarrow> bool" where
  "is_decimal s \<longleftrightarrow> s \<noteq> [] \<and> (\<forall>c \<in> set s. 48 \<le> (of_char c :: nat) \<and> (of_char c :: nat) \<le> 57)"

definition positive_var :: "environment \<Rightarrow> string \<Rightarrow> usize \<Rightarrow> usize \<Rightarrow> bool" where
  "positive_var env var dflt val \<longleftrightarrow>
     (case map_of env var of
        None \<Rightarrow> val = dflt
      | Some s \<Rightarrow> 0 < val \<and> (\<exists>ds. (s = ds \<or> s = CHR ''+'' # ds) \<and> is_decimal ds \<and> decimal ds = unat val))"

section \<open>Lemmas of the configuration\<close>

subsection \<open>The bit set is a set\<close>

text \<open>
  A client of the set is a sequence of its two operations; it observes what they return.  The
  reference is a mathematical set: inserting tells whether the element is new.
\<close>

datatype 'a set_op = Insert 'a | Contains 'a

fun run_ops :: "('s \<Rightarrow> 'a \<Rightarrow> ('e, bool \<times> 's) outcome) \<Rightarrow> ('s \<Rightarrow> 'a \<Rightarrow> ('e, bool) outcome) \<Rightarrow>
    'a set_op list \<Rightarrow> 's \<Rightarrow> ('e, bool list) outcome" where
  "run_ops ins con [] s = Ok []"
| "run_ops ins con (Insert x # ops) s =
     obind (ins s x) (\<lambda>(b, s'). obind (run_ops ins con ops s') (\<lambda>bs. Ok (b # bs)))"
| "run_ops ins con (Contains x # ops) s =
     obind (con s x) (\<lambda>b. obind (run_ops ins con ops s) (\<lambda>bs. Ok (b # bs)))"

fun run_set :: "'a set_op list \<Rightarrow> 'a set \<Rightarrow> bool list" where
  "run_set [] A = []"
| "run_set (Insert x # ops) A = (x \<notin> A) # run_set ops (insert x A)"
| "run_set (Contains x # ops) A = (x \<in> A) # run_set ops A"

text \<open>
  The interface of the set: an abstraction \<open>members\<close>, an invariant, and operations that never fail
  under the invariant.  The loop that inserts every request type of a database is verified against
  the interface.
\<close>

locale request_set =
  fixes new :: 's
    and insert :: "'s \<Rightarrow> 'a \<Rightarrow> ('e, bool \<times> 's) outcome"
    and contains :: "'s \<Rightarrow> 'a \<Rightarrow> ('e, bool) outcome"
    and members :: "'s \<Rightarrow> 'a set"
    and invar :: "'s \<Rightarrow> bool"
  assumes new: "invar new" "members new = {}"
    and contains: "invar s \<Longrightarrow> contains s x = Ok (x \<in> members s)"
    and insert: "invar s \<Longrightarrow>
      \<exists>s'. insert s x = Ok (x \<notin> members s, s') \<and> invar s' \<and> members s' = Set.insert x (members s)"
begin

lemma insert_loop:
  "invar s \<Longrightarrow> \<exists>s'. ofold (\<lambda>x s. obind (insert s x) (\<lambda>(_, s'). Ok s')) xs s = Ok s' \<and>
     invar s' \<and> members s' = members s \<union> set xs"
proof (induction xs arbitrary: s)
  case Nil
  then show ?case by simp
next
  case (Cons x xs)
  obtain s1 where "insert s x = Ok (x \<notin> members s, s1)" "invar s1"
    "members s1 = Set.insert x (members s)"
    using insert [OF Cons.prems] by blast
  then show ?case using Cons.IH [of s1] by auto
qed

lemma run_ops_run_set: "invar s \<Longrightarrow> run_ops insert contains ops s = Ok (run_set ops (members s))"
proof (induction ops arbitrary: s)
  case (Cons op ops)
  show ?case
  proof (cases op)
    case (Insert x)
    obtain s1 where "insert s x = Ok (x \<notin> members s, s1)" "invar s1" "members s1 = Set.insert x (members s)"
      using insert [OF Cons.prems] by blast
    then show ?thesis using Cons.IH [of s1] by (simp add: Insert)
  next
    case (Contains x)
    then show ?thesis using Cons by (simp add: contains)
  qed
qed simp

lemma insert_twice:
  assumes "invar s" "insert s x = Ok (b, s')"
  shows "\<exists>s''. insert s' x = Ok (False, s'') \<and> members s'' = members s'"
  using insert [OF assms(1), of x] insert [of s' x] assms(2) by force

end

definition set_members :: "RequestTypeSet \<Rightarrow> RequestType set" where
  "set_members s = {ty. bits s ! discriminant ty}"

definition set_ok :: "RequestTypeSet \<Rightarrow> bool" where
  "set_ok s \<longleftrightarrow> length (bits s) = BITSET_SIZE"

lemma discriminant_in_bitset [simp]: "discriminant ty < BITSET_SIZE"
  using discriminant_less [of ty] by (simp add: BITSET_SIZE_def del: discriminant_less)

interpretation bitset: request_set RequestTypeSet_new RequestTypeSet_insert RequestTypeSet_contains
  set_members set_ok
proof
  show "set_ok RequestTypeSet_new" "set_members RequestTypeSet_new = {}"
    by (simp_all add: set_ok_def set_members_def RequestTypeSet_new_def)
next
  fix s x assume ok: "set_ok s"
  then show "RequestTypeSet_contains s x = Ok (x \<in> set_members s)"
    by (simp add: RequestTypeSet_contains_def set_ok_def set_members_def)
  show "\<exists>s'. RequestTypeSet_insert s x = Ok (x \<notin> set_members s, s') \<and> set_ok s' \<and>
      set_members s' = insert x (set_members s)"
    using ok by (cases "bits s ! discriminant x")
      (auto simp: RequestTypeSet_insert_def set_ok_def set_members_def nth_list_update)
qed

text \<open>The bits that are no request type are never set, so equal members mean equal arrays.\<close>

definition only_types :: "RequestTypeSet \<Rightarrow> bool" where
  "only_types s \<longleftrightarrow> (\<forall>i < length (bits s). bits s ! i \<longrightarrow> i \<in> range discriminant)"

lemma bitset_eqI:
  fixes s s' :: RequestTypeSet
  assumes "set_ok s" "set_ok s'" "only_types s" "only_types s'" "set_members s = set_members s'"
  shows "s = s'"
proof -
  have "bits s ! i = bits s' ! i" if "i < BITSET_SIZE" for i
  proof (cases "i \<in> range discriminant")
    case True
    then show ?thesis using assms(5) by (auto simp: set_members_def)
  qed (use assms that in \<open>auto simp: only_types_def set_ok_def\<close>)
  then have "bits s = bits s'" using assms(1,2) by (intro nth_equalityI) (simp_all add: set_ok_def)
  then show ?thesis by (cases s, cases s') simp
qed

lemma insert_only_types:
  "RequestTypeSet_insert s ty = Ok (b, s') \<Longrightarrow> only_types s \<Longrightarrow> only_types s'"
  by (auto simp: RequestTypeSet_insert_def only_types_def index_def index_update_def nth_list_update
      split: if_splits)

subsection \<open>The table of databases\<close>

lemma distinct_databases: "distinct (map to_uppercase (map fst OPS_BY_DATABASE))"
  by code_simp

lemma btree_get_ops_map:
  "btree_get ops_map g = map_of (map (\<lambda>(db, tys). (to_uppercase db, tys)) OPS_BY_DATABASE) g"
proof -
  have "inj_on to_uppercase (fst ` set OPS_BY_DATABASE)" "distinct (map fst OPS_BY_DATABASE)"
    using distinct_databases unfolding distinct_map [of to_uppercase] by simp_all
  then show ?thesis
    unfolding ops_map_def by (subst btree.get_fold) (simp_all add: btree.invar_empty split: option.split)
qed

lemma btree_get_ops_map_Some:
  "btree_get ops_map g = Some tys \<longleftrightarrow> (\<exists>db. (db, tys) \<in> set OPS_BY_DATABASE \<and> g = to_uppercase db)"
proof -
  have "distinct (map fst (map (\<lambda>(db, tys). (to_uppercase db, tys)) OPS_BY_DATABASE))"
    using distinct_databases by (simp add: comp_def case_prod_beta)
  then show ?thesis unfolding btree_get_ops_map by (subst map_of_eq_Some_iff) auto
qed

lemma btree_get_ops_map_None:
  "btree_get ops_map g = None \<longleftrightarrow> g \<notin> (to_uppercase \<circ> fst) ` set OPS_BY_DATABASE"
  unfolding btree_get_ops_map map_of_eq_None_iff by force

text \<open>The table of the code, with its prefix and in upper case, is the documented one.\<close>

lemma documented_databases_code:
  "documented_databases = map (\<lambda>(db, tys). (ignore_prefix @ to_uppercase db, tys)) OPS_BY_DATABASE"
  by code_simp

lemma ignored_by_code:
  "ignored_by env = {ty. \<exists>db tys. (db, tys) \<in> set OPS_BY_DATABASE \<and> ty \<in> set tys \<and>
     (ignore_prefix @ to_uppercase db, ''true'') \<in> set env}"
  unfolding ignored_by_def documented_databases_code by force

lemma take_ignore_prefix: "take 13 k = ''NSNCD_IGNORE_'' \<longleftrightarrow> (\<exists>g. k = ignore_prefix @ g)"
proof
  assume "take 13 k = ''NSNCD_IGNORE_''"
  then have "k = ignore_prefix @ drop 13 k" unfolding ignore_prefix_def by (metis append_take_drop_id)
  then show "\<exists>g. k = ignore_prefix @ g" ..
qed (auto simp: ignore_prefix_def)

lemma var_ok_code:
  "var_ok (k, v) \<longleftrightarrow> is_unicode k \<and> is_unicode v \<and>
     (\<forall>g. k = ignore_prefix @ g \<longrightarrow>
        g \<in> (to_uppercase \<circ> fst) ` set OPS_BY_DATABASE \<and> v \<in> {''true'', ''false''})"
  unfolding var_ok_def documented_databases_code by (auto simp: take_ignore_prefix image_iff case_prod_unfold)

subsection \<open>Reading decimal numbers\<close>

lemma digit_val_eq_Some:
  "digit_val c = Some d \<longleftrightarrow> 48 \<le> (of_char c :: nat) \<and> (of_char c :: nat) \<le> 57 \<and> d = of_char c - 48"
  by (auto simp: digit_val_def Let_def)

lemma foldl_decimal_ge: "n \<le> foldl (\<lambda>n c. n * 10 + f c) n s" for f :: "char \<Rightarrow> nat"
proof (induction s arbitrary: n)
  case (Cons c s)
  have "n \<le> n * 10 + f c" by simp
  also note Cons
  finally show ?case by simp
qed simp

lemma parse_digits_eq_Some:
  "acc < 2 ^ 64 \<Longrightarrow> parse_digits acc s = Some n \<longleftrightarrow>
     (\<forall>c \<in> set s. 48 \<le> (of_char c :: nat) \<and> (of_char c :: nat) \<le> 57) \<and>
     foldl (\<lambda>n c. n * 10 + (of_char c - 48)) acc s = n \<and> n < 2 ^ 64"
proof (induction acc s rule: parse_digits.induct)
  case (1 acc)
  then show ?case by auto
next
  case (2 acc c cs)
  show ?case
  proof (cases "digit_val c")
    case None
    then have "\<not> (48 \<le> (of_char c :: nat) \<and> (of_char c :: nat) \<le> 57)"
      using digit_val_eq_Some [of c "of_char c - 48"] by auto
    with None show ?thesis by auto
  next
    case (Some d)
    then have d: "48 \<le> (of_char c :: nat) \<and> (of_char c :: nat) \<le> 57" "of_char c - 48 = d"
      by (auto simp: digit_val_eq_Some)
    show ?thesis
    proof (cases "acc * 10 + d < 2 ^ 64")
      case True
      with Some d show ?thesis using "2.IH" [OF Some True True] by simp
    next
      case False
      with Some d show ?thesis
        using foldl_decimal_ge [of "acc * 10 + d" "\<lambda>c. of_char c - 48" cs] by auto
    qed
  qed
qed

lemma parse_usize_eq_Some:
  "parse_usize s = Some v \<longleftrightarrow>
     (\<exists>ds. (s = ds \<or> s = CHR ''+'' # ds) \<and> is_decimal ds \<and> decimal ds = unat v)"
proof -
  have digits: "map_option of_nat (parse_digits 0 ds) = Some v \<longleftrightarrow> is_decimal ds \<and> decimal ds = unat v"
    if "ds \<noteq> []" for ds
    using that unsigned_less [of v]
    by (auto simp: parse_digits_eq_Some is_decimal_def decimal_def unat_of_nat take_bit_nat_eq_self)
  have plus: "\<not> is_decimal (CHR ''+'' # ds)" for ds by (simp add: is_decimal_def)
  show ?thesis
  proof (cases s)
    case Nil
    then show ?thesis by (simp add: parse_usize_def is_decimal_def)
  next
    case (Cons c cs)
    show ?thesis
    proof (cases "c = CHR ''+''")
      case True
      then show ?thesis using Cons digits [of cs] plus
        by (auto simp: parse_usize_def is_decimal_def)
    next
      case False
      have "\<not> is_decimal ''-''" by (simp add: is_decimal_def)
      then show ?thesis using Cons False digits [of s] by (auto simp: parse_usize_def)
    qed
  qed
qed

lemma env_positive_usize_eq_Ok:
  assumes "\<forall>s. map_of env var = Some s \<longrightarrow> is_unicode s"
  shows "env_positive_usize env var dflt = Ok v \<longleftrightarrow> positive_var env var dflt v"
  using assms
  by (auto simp: env_positive_usize_def env_var_def positive_var_def obind_eq_Ok ok_or_eq_Ok
      parse_usize_eq_Some split: option.split)

subsection \<open>The loop over the environment\<close>

lemma ignore_var_ok:
  assumes "set_ok s" "var_ok kv"
  shows "\<exists>s'. ignore_var ops_map kv s = Ok s' \<and> set_ok s' \<and>
    set_members s' = set_members s \<union> ignored_by [kv]"
proof -
  obtain k v where kv: "kv = (k, v)" by fastforce
  show ?thesis
  proof (cases "strip_prefix ignore_prefix k")
    case None
    then have "ignored_by [kv] = {}"
      using strip_prefix_append by (auto simp: kv ignored_by_code)
    with None assms show ?thesis by (simp add: kv ignore_var_def var_ok_code)
  next
    case (Some g)
    then have k: "k = ignore_prefix @ g" by (simp only: strip_prefix_eq_Some)
    with assms obtain tys where tys: "btree_get ops_map g = Some tys" and v: "v = ''true'' \<or> v = ''false''"
      using btree_get_ops_map_None [of g] by (auto simp: kv var_ok_code)
    have "ty \<in> ignored_by [kv] \<longleftrightarrow>
        v = ''true'' \<and> (\<exists>tys'. btree_get ops_map g = Some tys' \<and> ty \<in> set tys')" for ty
      unfolding btree_get_ops_map_Some by (auto simp: kv k ignored_by_code)
    then have "ignored_by [kv] = (if v = ''true'' then set tys else {})"
      using tys by auto
    with v tys assms Some show ?thesis
      using bitset.insert_loop [of s tys]
      by (auto simp: kv ignore_var_def var_ok_code insert_all_def parse_bool_def)
  qed
qed

lemma ignore_var_not_ok:
  assumes "\<not> var_ok kv"
  shows "ignore_var ops_map kv s \<noteq> Ok s'"
proof
  assume ok: "ignore_var ops_map kv s = Ok s'"
  obtain k v where kv: "kv = (k, v)" by fastforce
  from ok have unicode: "is_unicode k" "is_unicode v"
    by (auto simp: kv ignore_var_def split: if_splits)
  have "g \<in> (to_uppercase \<circ> fst) ` set OPS_BY_DATABASE \<and> v \<in> {''true'', ''false''}"
    if k: "k = ignore_prefix @ g" for g
  proof -
    from ok have "btree_get ops_map g \<noteq> None" "parse_bool v \<noteq> None"
      by (auto simp: kv k ignore_var_def obind_eq_Ok ok_or_eq_Ok split: if_splits)
    then show ?thesis
      by (simp only: btree_get_ops_map_None) (auto simp: parse_bool_def split: if_splits)
  qed
  with unicode assms show False by (auto simp: kv var_ok_code)
qed

lemma ignored_by_list:
  "ignored_by env = set (concat (map snd
     (filter (\<lambda>(var, _). (var, ''true'') \<in> set env) documented_databases)))"
  unfolding ignored_by_def by auto blast+

lemma ignored_by_Cons: "ignored_by (kv # env) = ignored_by [kv] \<union> ignored_by env"
  by (auto simp: ignored_by_def)

lemma ignore_loop:
  assumes "set_ok s"
  shows "(\<exists>s'. ofold (ignore_var ops_map) env s = Ok s' \<and> set_ok s' \<and> set_members s' = M) \<longleftrightarrow>
    (\<forall>kv \<in> set env. var_ok kv) \<and> M = set_members s \<union> ignored_by env"
  using assms
proof (induction env arbitrary: s)
  case Nil
  then show ?case by (auto simp: ignored_by_def)
next
  case (Cons kv env)
  show ?case
  proof (cases "var_ok kv")
    case True
    then obtain s1 where "ignore_var ops_map kv s = Ok s1" "set_ok s1"
      "set_members s1 = set_members s \<union> ignored_by [kv]"
      using ignore_var_ok [OF Cons.prems] by blast
    then show ?thesis
      using Cons.IH [of s1] True ignored_by_Cons [of kv env] by (auto simp: Un_assoc)
  next
    case False
    then show ?thesis using ignore_var_not_ok [OF False] by (auto simp: obind_eq_Ok)
  qed
qed

lemma ignore_loop_set_ok: "ofold (ignore_var ops_map) env s = Ok s' \<Longrightarrow> set_ok s \<Longrightarrow> set_ok s'"
proof (erule ofold_invariant [rotated 2])
  show "set_ok s2" if "set_ok s1" "ignore_var ops_map kv s1 = Ok s2" for kv s1 s2
    using ignore_var_ok [of s1 kv] ignore_var_not_ok [of kv s1 s2] that by (cases "var_ok kv") auto
qed

lemma from_env_set_ok: "from_env env = Ok cfg \<Longrightarrow> set_ok (ignored_request_types cfg)"
  by (auto simp: from_env_def obind_eq_Ok intro: ignore_loop_set_ok [OF _ bitset.new(1)])

lemma ignore_var_only_types:
  "ignore_var ops kv s = Ok s' \<Longrightarrow> only_types s \<Longrightarrow> only_types s'"
  unfolding ignore_var_def insert_all_def
  by (auto simp: obind_eq_Ok split: prod.splits if_splits option.splits
      elim!: ofold_invariant [rotated 2] intro: insert_only_types)

lemma from_env_only_types: "from_env env = Ok cfg \<Longrightarrow> only_types (ignored_request_types cfg)"
proof -
  have "only_types RequestTypeSet_new" by (simp add: only_types_def RequestTypeSet_new_def)
  then show "from_env env = Ok cfg \<Longrightarrow> only_types (ignored_request_types cfg)"
    by (auto simp: from_env_def obind_eq_Ok intro: ofold_invariant [where P = only_types] ignore_var_only_types)
qed

lemma should_ignore_members:
  "set_ok (ignored_request_types cfg) \<Longrightarrow>
   should_ignore cfg ty = Ok (ty \<in> set_members (ignored_request_types cfg))"
  by (simp add: should_ignore_def bitset.contains)

lemma var_ok_unicode: "\<forall>kv \<in> set env. var_ok kv \<Longrightarrow> map_of env var = Some s \<Longrightarrow> is_unicode s"
  by (auto simp: var_ok_def dest!: map_of_SomeD)

lemma positive_var_pos: "0 < dflt \<Longrightarrow> positive_var env var dflt v \<Longrightarrow> 0 < v"
  by (auto simp: positive_var_def split: option.splits)

lemma from_env_spec:
  "(\<exists>cfg. from_env env = Ok cfg \<and> worker_count cfg = w \<and> handoff_timeout cfg = h \<and>
      set_members (ignored_request_types cfg) = M) \<longleftrightarrow>
   (\<forall>kv \<in> set env. var_ok kv) \<and> positive_var env ''NSNCD_WORKER_COUNT'' 8 w \<and>
   positive_var env ''NSNCD_HANDOFF_TIMEOUT'' 3 h \<and> M = ignored_by env"
proof -
  have "(\<exists>cfg. from_env env = Ok cfg \<and> worker_count cfg = w \<and> handoff_timeout cfg = h \<and>
      set_members (ignored_request_types cfg) = M) \<longleftrightarrow>
    (\<exists>s'. ofold (ignore_var ops_map) env RequestTypeSet_new = Ok s' \<and> set_ok s' \<and> set_members s' = M) \<and>
    env_positive_usize env ''NSNCD_WORKER_COUNT'' 8 = Ok w \<and>
    env_positive_usize env ''NSNCD_HANDOFF_TIMEOUT'' 3 = Ok h"
    by (auto simp: from_env_def obind_eq_Ok intro: ignore_loop_set_ok [OF _ bitset.new(1)])
  also have "\<dots> \<longleftrightarrow> (\<forall>kv \<in> set env. var_ok kv) \<and> M = ignored_by env \<and>
    env_positive_usize env ''NSNCD_WORKER_COUNT'' 8 = Ok w \<and>
    env_positive_usize env ''NSNCD_HANDOFF_TIMEOUT'' 3 = Ok h"
    by (simp add: ignore_loop [OF bitset.new(1)] bitset.new(2))
  also have "\<dots> \<longleftrightarrow> (\<forall>kv \<in> set env. var_ok kv) \<and> positive_var env ''NSNCD_WORKER_COUNT'' 8 w \<and>
    positive_var env ''NSNCD_HANDOFF_TIMEOUT'' 3 h \<and> M = ignored_by env"
    using env_positive_usize_eq_Ok [of env "''NSNCD_WORKER_COUNT''" 8 w]
      env_positive_usize_eq_Ok [of env "''NSNCD_HANDOFF_TIMEOUT''" 3 h] var_ok_unicode [of env]
    by blast
  finally show ?thesis .
qed

lemma from_env_same_spec:
  assumes "from_env env = Ok cfg"
    and "(\<forall>kv \<in> set env'. var_ok kv) \<longleftrightarrow> (\<forall>kv \<in> set env. var_ok kv)"
    and "positive_var env' ''NSNCD_WORKER_COUNT'' = positive_var env ''NSNCD_WORKER_COUNT''"
    and "positive_var env' ''NSNCD_HANDOFF_TIMEOUT'' = positive_var env ''NSNCD_HANDOFF_TIMEOUT''"
    and "ignored_by env' = ignored_by env"
  shows "from_env env' = Ok cfg"
proof -
  let ?M = "set_members (ignored_request_types cfg)"
  obtain cfg' where cfg': "from_env env' = Ok cfg'" "worker_count cfg' = worker_count cfg"
    "handoff_timeout cfg' = handoff_timeout cfg" "set_members (ignored_request_types cfg') = ?M"
    using assms from_env_spec [of env "worker_count cfg" "handoff_timeout cfg" ?M]
      from_env_spec [of env' "worker_count cfg" "handoff_timeout cfg" ?M] by auto
  then have "ignored_request_types cfg' = ignored_request_types cfg"
    using assms(1) by (intro bitset_eqI) (auto intro: from_env_set_ok from_env_only_types)
  with cfg' show ?thesis by simp
qed

lemma from_env_same:
  assumes "(\<forall>kv \<in> set env'. var_ok kv) \<longleftrightarrow> (\<forall>kv \<in> set env. var_ok kv)"
    and "map_of env' ''NSNCD_WORKER_COUNT'' = map_of env ''NSNCD_WORKER_COUNT''"
    and "map_of env' ''NSNCD_HANDOFF_TIMEOUT'' = map_of env ''NSNCD_HANDOFF_TIMEOUT''"
    and "ignored_by env' = ignored_by env"
  shows "from_env env' = Ok cfg \<longleftrightarrow> from_env env = Ok cfg"
proof -
  have "positive_var env' ''NSNCD_WORKER_COUNT'' = positive_var env ''NSNCD_WORKER_COUNT''"
    "positive_var env' ''NSNCD_HANDOFF_TIMEOUT'' = positive_var env ''NSNCD_HANDOFF_TIMEOUT''"
    using assms(2,3) by (simp_all add: fun_eq_iff positive_var_def)
  with assms(1,4) show ?thesis
    using from_env_same_spec [of env cfg env'] from_env_same_spec [of env' cfg env] by auto
qed

text \<open>Only a variable that is not Unicode makes \<open>from_env\<close> panic, and only if the loop reaches it.\<close>

abbreviation unicode_var :: "string \<times> string \<Rightarrow> bool" where
  "unicode_var \<equiv> (\<lambda>(k, v). is_unicode k \<and> is_unicode v)"

lemma ignore_var_returns:
  assumes "set_ok s" "unicode_var kv"
  shows "returns (ignore_var ops_map kv s)"
proof -
  have "returns (insert_all tys s)" for tys
    using bitset.insert_loop [OF assms(1), of tys] by (auto simp: insert_all_def)
  then show ?thesis
    using assms(2) by (cases kv) (auto simp: ignore_var_def returns_obind split: option.split)
qed

lemma ignore_var_panics: "\<not> unicode_var kv \<Longrightarrow> ignore_var ops_map kv s = Panic Not_Unicode"
  by (cases kv) (auto simp: ignore_var_def)

text \<open>The first variable that is not accepted decides how the loop fails.\<close>

lemma ignore_loop_fails:
  assumes "set_ok s" "\<forall>kv \<in> set pre. var_ok kv" "\<not> var_ok kv"
  shows "\<exists>s'. ofold (ignore_var ops_map) (pre @ kv # post) s = ignore_var ops_map kv s' \<and> set_ok s'"
  using assms(1,2)
proof (induction pre arbitrary: s)
  case Nil
  have "ofold (ignore_var ops_map) (kv # post) s = ignore_var ops_map kv s"
    using ignore_var_not_ok [OF assms(3), of s] by (cases "ignore_var ops_map kv s") auto
  then show ?case using Nil by auto
next
  case (Cons kv' pre)
  obtain s1 where "ignore_var ops_map kv' s = Ok s1" "set_ok s1"
    using ignore_var_ok [OF Cons.prems(1), of kv'] Cons.prems(2) by auto
  then show ?case using Cons.IH [of s1] Cons.prems(2) by simp
qed

lemma ignore_loop_cases:
  assumes "set_ok s"
  obtains (all_ok) s' where "\<forall>kv \<in> set env. var_ok kv" "ofold (ignore_var ops_map) env s = Ok s'"
  | (refused) pre kv post e where "env = pre @ kv # post" "\<forall>kv \<in> set pre. var_ok kv" "\<not> var_ok kv"
      "unicode_var kv" "ofold (ignore_var ops_map) env s = Err e"
  | (panics) pre kv post where "env = pre @ kv # post" "\<forall>kv \<in> set pre. var_ok kv" "\<not> unicode_var kv"
      "ofold (ignore_var ops_map) env s = Panic Not_Unicode"
proof (cases "\<forall>kv \<in> set env. var_ok kv")
  case True
  then show ?thesis using ignore_loop [OF assms, of env] all_ok by blast
next
  case False
  then obtain pre kv post where split: "env = pre @ kv # post" "\<forall>kv \<in> set pre. var_ok kv" "\<not> var_ok kv"
    using split_list_first_prop [of env "\<lambda>kv. \<not> var_ok kv"] by blast
  from ignore_loop_fails [OF assms split(2,3)] obtain s' where
    s': "ofold (ignore_var ops_map) env s = ignore_var ops_map kv s'" "set_ok s'"
    unfolding split(1) by blast
  show ?thesis
  proof (cases "unicode_var kv")
    case True
    with ignore_var_returns [OF s'(2) True] ignore_var_not_ok [OF split(3), of s'] s'(1)
    show ?thesis using refused [OF split True] by (auto simp: returns_iff)
  next
    case False
    with s'(1) ignore_var_panics [OF False, of s'] show ?thesis using panics [OF split(1,2) False] by simp
  qed
qed

lemma env_positive_usize_returns: "returns (env_positive_usize env var dflt)"
  by (auto simp: env_positive_usize_def returns_obind split: option.split)

lemma from_env_Panic:
  "from_env env = Panic p \<longleftrightarrow> ofold (ignore_var ops_map) env RequestTypeSet_new = Panic p"
  using env_positive_usize_returns [of env "''NSNCD_WORKER_COUNT''" 8]
    env_positive_usize_returns [of env "''NSNCD_HANDOFF_TIMEOUT''" 3]
  by (auto simp: from_env_def obind_eq_Panic)

lemma not_unicode_not_ok: "\<not> unicode_var kv \<Longrightarrow> \<not> var_ok kv"
  by (cases kv) (auto simp: var_ok_def)

lemma from_env_Panic_first:
  "from_env env = Panic p \<longleftrightarrow> p = Not_Unicode \<and>
     (\<exists>pre kv post. env = pre @ kv # post \<and> (\<forall>kv \<in> set pre. var_ok kv) \<and> \<not> unicode_var kv)"
proof
  assume "from_env env = Panic p"
  then have loop: "ofold (ignore_var ops_map) env RequestTypeSet_new = Panic p" by (simp only: from_env_Panic)
  show "p = Not_Unicode \<and>
     (\<exists>pre kv post. env = pre @ kv # post \<and> (\<forall>kv \<in> set pre. var_ok kv) \<and> \<not> unicode_var kv)"
    using bitset.new(1)
  proof (cases rule: ignore_loop_cases [of _ env])
    case (panics pre kv post)
    then show ?thesis using loop by (intro conjI exI [of _ pre] exI [of _ kv] exI [of _ post]) simp_all
  qed (use loop in simp_all)
next
  assume "p = Not_Unicode \<and>
     (\<exists>pre kv post. env = pre @ kv # post \<and> (\<forall>kv \<in> set pre. var_ok kv) \<and> \<not> unicode_var kv)"
  then obtain pre kv post where *: "p = Not_Unicode" "env = pre @ kv # post" "\<forall>kv \<in> set pre. var_ok kv"
    "\<not> unicode_var kv" by blast
  from ignore_loop_fails [OF bitset.new(1) *(3) not_unicode_not_ok [OF *(4)], of post] ignore_var_panics [OF *(4)]
  show "from_env env = Panic p" using *(1,2) by (auto simp: from_env_Panic)
qed

lemma from_env_Panic_var:
  assumes "from_env env = Panic p"
  shows "p = Not_Unicode" "\<exists>k v. (k, v) \<in> set env \<and> \<not> (is_unicode k \<and> is_unicode v)"
proof -
  obtain pre kv post where "p = Not_Unicode" "env = pre @ kv # post" "\<not> unicode_var kv"
    using assms from_env_Panic_first [of env p] by blast
  then show "p = Not_Unicode" "\<exists>k v. (k, v) \<in> set env \<and> \<not> (is_unicode k \<and> is_unicode v)"
    by (cases kv; auto)+
qed

lemma from_env_ends: "returns (from_env env) \<or> from_env env = Panic Not_Unicode"
  using bitset.new(1)
proof (cases rule: ignore_loop_cases [of _ env])
  case (all_ok s')
  then show ?thesis
    using env_positive_usize_returns by (auto simp: from_env_def returns_obind)
qed (simp_all add: from_env_def)

lemma from_env_returns: "\<forall>kv \<in> set env. unicode_var kv \<Longrightarrow> returns (from_env env)"
  using from_env_ends [of env] from_env_Panic_first [of env Not_Unicode] by auto

text \<open>The variables that the daemon reads; the others do not matter, as long as they are Unicode.\<close>

definition nsncd_var :: "string \<times> string \<Rightarrow> bool" where
  "nsncd_var = (\<lambda>(k, v). take 13 k = ''NSNCD_IGNORE_'' \<or> k \<in> {''NSNCD_WORKER_COUNT'', ''NSNCD_HANDOFF_TIMEOUT''})"

lemma ignore_loop_filter:
  "\<forall>kv \<in> set env. unicode_var kv \<Longrightarrow>
   ofold (ignore_var ops) (filter nsncd_var env) s = ofold (ignore_var ops) env s"
proof (induction env arbitrary: s)
  case (Cons kv env)
  have "ignore_var ops kv s = Ok s" if "\<not> nsncd_var kv"
  proof -
    obtain k v where kv: "kv = (k, v)" by fastforce
    with that have "\<nexists>g. k = ignore_prefix @ g" by (simp add: nsncd_var_def take_ignore_prefix)
    then have "strip_prefix ignore_prefix k = None"
      using strip_prefix_eq_Some [of ignore_prefix k] by (cases "strip_prefix ignore_prefix k") auto
    with Cons.prems show ?thesis by (simp add: ignore_var_def kv)
  qed
  with Cons show ?case by (cases "ignore_var ops kv s") auto
qed simp

lemma map_of_filter_key: "(\<And>v. P (k, v)) \<Longrightarrow> map_of (filter P xs) k = map_of xs k"
  by (induction xs) auto

lemma from_env_filter:
  assumes "\<forall>kv \<in> set env. unicode_var kv"
  shows "from_env (filter nsncd_var env) = from_env env"
proof -
  have "map_of (filter nsncd_var env) k = map_of env k" if "k \<in> {''NSNCD_WORKER_COUNT'', ''NSNCD_HANDOFF_TIMEOUT''}" for k
    using that by (intro map_of_filter_key) (auto simp: nsncd_var_def)
  then show ?thesis
    using assms by (simp add: from_env_def ignore_loop_filter env_positive_usize_def env_var_def)
qed

lemma from_env_counts_positive:
  assumes "from_env env = Ok cfg"
  shows "0 < worker_count cfg" "0 < handoff_timeout cfg"
proof -
  have "positive_var env ''NSNCD_WORKER_COUNT'' 8 (worker_count cfg)"
    "positive_var env ''NSNCD_HANDOFF_TIMEOUT'' 3 (handoff_timeout cfg)"
    using assms from_env_spec [of env "worker_count cfg" "handoff_timeout cfg"] by blast+
  then show "0 < worker_count cfg" "0 < handoff_timeout cfg" by (auto dest: positive_var_pos [rotated])
qed

subsection \<open>Formatting\<close>

lemma fmt_entries_eval:
  assumes "from_primitive_law f" "set_ok s" "\<forall>i \<in> set is. i < 23"
  shows "fmt_entries f s is = Ok (filter (\<lambda>ty. ty \<in> set_members s) (map ((!) request_types) is))"
  using assms(3)
proof (induction "is")
  case Nil
  then show ?case by simp
next
  case (Cons i "is")
  then have "f (of_nat i) = Some (request_types ! i)"
    using from_primitive_lawD [OF assms(1), of "request_types ! i"] by (simp add: discriminant_nth)
  with Cons assms(2) show ?case by (simp add: bitset.contains)
qed

lemma sorted_request_types: "n \<le> 23 \<Longrightarrow> sorted_wrt (<) (map ((!) request_types) [0..<n])"
  by (auto simp: sorted_wrt_map sorted_wrt_iff_nth_less less_RequestType_def discriminant_nth)

lemma image_request_types: "(!) request_types ` {0..<22} = - {LASTREQ}"
proof -
  have "ty \<in> (!) request_types ` {0..<22} \<longleftrightarrow> discriminant ty < 22" for ty
    using nth_request_types [of ty, symmetric] by (auto simp: discriminant_nth simp del: nth_request_types)
  moreover have "discriminant ty < 22 \<longleftrightarrow> ty \<noteq> LASTREQ" for ty
    by (cases ty) simp_all
  ultimately show ?thesis by auto
qed

lemma RequestTypeSet_fmt_eval:
  "from_primitive_law f \<Longrightarrow> set_ok s \<Longrightarrow> RequestTypeSet_fmt f s =
     Ok (filter (\<lambda>ty. ty \<in> set_members s) (map ((!) request_types) [0..<22]))"
  unfolding RequestTypeSet_fmt_def by (subst fmt_entries_eval) simp_all

lemma RequestTypeSet_fmt_lists:
  assumes "from_primitive_law f" "set_ok s"
  shows "\<exists>tys. RequestTypeSet_fmt f s = Ok tys \<and> sorted_wrt (<) tys \<and> set tys = set_members s - {LASTREQ}"
proof -
  note RequestTypeSet_fmt_eval [OF assms]
  moreover have "sorted_wrt (<) (filter (\<lambda>ty. ty \<in> set_members s) (map ((!) request_types) [0..<22]))"
    by (intro sorted_wrt_filter sorted_request_types) simp
  ultimately show ?thesis using image_request_types by auto
qed

lemma from_env_ignores: "from_env env = Ok cfg \<Longrightarrow> set_members (ignored_request_types cfg) = ignored_by env"
  using from_env_spec [of env "worker_count cfg" "handoff_timeout cfg" "set_members (ignored_request_types cfg)"]
  by blast

lemma LASTREQ_never_ignored: "LASTREQ \<notin> ignored_by env"
  by (auto simp: ignored_by_def documented_databases_def)

subsection \<open>An environment\<close>

definition example_env :: environment where
  "example_env = [(''HOME'', ''/root''), (''NSNCD_IGNORE_GROUP'', ''true''), (''NSNCD_WORKER_COUNT'', ''13'')]"

lemma example_env_spec:
  "\<forall>kv \<in> set example_env. var_ok kv" "ignored_by example_env = {GETGRBYNAME, GETGRBYGID}"
  "positive_var example_env ''NSNCD_WORKER_COUNT'' 8 13" "positive_var example_env ''NSNCD_HANDOFF_TIMEOUT'' 3 3"
proof -
  have "\<forall>kv \<in> set example_env. unicode_var kv" by (simp add: example_env_def is_unicode_ascii)
  then show "\<forall>kv \<in> set example_env. var_ok kv" by (simp add: example_env_def var_ok_def documented_databases_def)
  have "concat (map snd (filter (\<lambda>(var, _). (var, ''true'') \<in> set example_env) documented_databases)) =
      [GETGRBYNAME, GETGRBYGID]"
    by code_simp
  then show "ignored_by example_env = {GETGRBYNAME, GETGRBYGID}" by (simp only: ignored_by_list) simp
  show "positive_var example_env ''NSNCD_WORKER_COUNT'' 8 13"
    by (auto simp: example_env_def positive_var_def is_decimal_def decimal_def intro!: exI [of _ "''13''"])
  show "positive_var example_env ''NSNCD_HANDOFF_TIMEOUT'' 3 3"
    by (simp add: example_env_def positive_var_def)
qed

section \<open>Properties of the configuration\<close>

text \<open>
  C6. \<open>Config::from_env\<close> implements its documentation: it succeeds exactly on environments that
  are Unicode, set of the variables \<open>NSNCD_IGNORE_...\<close> only the six documented ones, to \<open>true\<close> or
  \<open>false\<close>, and give positive decimal numbers that fit 64 bits (or nothing) for the two counts; the
  configuration then has those counts and ignores exactly the requests of the documented databases
  that are set to \<open>true\<close>.
\<close>

theorem from_env_implements_documentation:
  "(\<exists>cfg. from_env env = Ok cfg \<and> worker_count cfg = w \<and> handoff_timeout cfg = h \<and>
      (\<forall>ty. should_ignore cfg ty = Ok (ty \<in> M))) \<longleftrightarrow>
   (\<forall>kv \<in> set env. var_ok kv) \<and> positive_var env ''NSNCD_WORKER_COUNT'' 8 w \<and>
   positive_var env ''NSNCD_HANDOFF_TIMEOUT'' 3 h \<and> M = ignored_by env"
proof -
  have "(\<forall>ty. should_ignore cfg ty = Ok (ty \<in> M)) \<longleftrightarrow> set_members (ignored_request_types cfg) = M"
    if "from_env env = Ok cfg" for cfg
    using should_ignore_members [OF from_env_set_ok [OF that]] by auto
  then show ?thesis unfolding from_env_spec [symmetric] by blast
qed

theorem from_env_implements_documentation_witness:
  "\<exists>cfg. from_env [(''HOME'', ''/root''), (''NSNCD_IGNORE_GROUP'', ''true''),
       (''NSNCD_WORKER_COUNT'', ''13'')] = Ok cfg \<and> worker_count cfg = 13 \<and> handoff_timeout cfg = 3 \<and>
     (\<forall>ty. should_ignore cfg ty = Ok (ty \<in> {GETGRBYNAME, GETGRBYGID}))"
  using from_env_implements_documentation [of example_env 13 3 "{GETGRBYNAME, GETGRBYGID}"] example_env_spec
  by (simp add: example_env_def)

text \<open>
  C37. The configuration does not depend on the order in which the operating system lists the
  variables: two environments with the same variables, each set once, give the same configuration, or
  both none.
\<close>

theorem from_env_order_irrelevant:
  assumes "distinct (map fst env)" "distinct (map fst env')" "set env' = set env"
  shows "from_env env' = Ok cfg \<longleftrightarrow> from_env env = Ok cfg"
  using assms map_of_inject_set [OF assms(2,1)]
  by (intro from_env_same) (simp_all add: ignored_by_def)

theorem from_env_order_irrelevant_witness:
  "\<forall>cfg. from_env [(''NSNCD_WORKER_COUNT'', ''13''), (''NSNCD_IGNORE_GROUP'', ''true'')] = Ok cfg \<longleftrightarrow>
     from_env [(''NSNCD_IGNORE_GROUP'', ''true''), (''NSNCD_WORKER_COUNT'', ''13'')] = Ok cfg"
  by (intro allI from_env_order_irrelevant) auto

text \<open>
  C36. The array of 256 bits is equivalent to a set of request types: whatever sequence of insertions
  and queries a client makes on a new set, no index is out of bounds and every answer is the one a
  mathematical set gives.
\<close>

theorem bitset_equals_set:
  "run_ops RequestTypeSet_insert RequestTypeSet_contains ops RequestTypeSet_new = Ok (run_set ops {})"
  using bitset.run_ops_run_set [OF bitset.new(1)] by (simp add: bitset.new(2))

text \<open>
  C38. Formatting for the log never panics and is ascending.  \<open>Debug\<close> of any bit set lists its members
  except \<open>LASTREQ\<close>, where its loop ends; for a configuration that was read from the environment it
  lists exactly the request types that the daemon ignores.
\<close>

theorem fmt_lists_members:
  assumes "from_primitive_law f"
  shows "(set_ok s \<longrightarrow> (\<exists>tys. RequestTypeSet_fmt f s = Ok tys \<and> sorted_wrt (<) tys \<and>
      set tys = set_members s - {LASTREQ})) \<and>
    (from_env env = Ok cfg \<longrightarrow> (\<exists>tys. RequestTypeSet_fmt f (ignored_request_types cfg) = Ok tys \<and>
      sorted_wrt (<) tys \<and> set tys = {ty. should_ignore cfg ty = Ok True}))"
proof -
  note listing = RequestTypeSet_fmt_lists [OF assms]
  have "set_members (ignored_request_types cfg) - {LASTREQ} = {ty. should_ignore cfg ty = Ok True}"
    if "from_env env = Ok cfg"
    using from_env_ignores [OF that] LASTREQ_never_ignored [of env]
      should_ignore_members [OF from_env_set_ok [OF that]] by auto
  then show ?thesis
    using listing [of s] listing [OF from_env_set_ok, of env cfg] by auto
qed

theorem fmt_lists_members_witness:
  "\<exists>cfg. from_env example_env = Ok cfg \<and>
     RequestTypeSet_fmt from_i32_by_search (ignored_request_types cfg) = Ok [GETGRBYNAME, GETGRBYGID]"
proof -
  obtain cfg where cfg: "from_env example_env = Ok cfg" "set_members (ignored_request_types cfg) = {GETGRBYNAME, GETGRBYGID}"
    using from_env_spec [of example_env 13 3 "{GETGRBYNAME, GETGRBYGID}"] example_env_spec by auto
  obtain tys where "RequestTypeSet_fmt from_i32_by_search (ignored_request_types cfg) = Ok tys"
    "sorted_wrt (<) tys" "set tys = {ty. should_ignore cfg ty = Ok True}"
    using fmt_lists_members [OF from_i32_by_search_law, THEN conjunct2] cfg(1) by blast
  moreover have "{ty. should_ignore cfg ty = Ok True} = set [GETGRBYNAME, GETGRBYGID]"
    using should_ignore_members [OF from_env_set_ok [OF cfg(1)]] cfg(2) by auto
  moreover have "sorted_wrt (<) [GETGRBYNAME, GETGRBYGID]" by code_simp
  ultimately have "tys = [GETGRBYNAME, GETGRBYGID]" by (metis strict_sorted_equal)
  then show ?thesis using cfg(1) \<open>RequestTypeSet_fmt _ _ = Ok tys\<close> by blast
qed

text \<open>
  C39. Reading the configuration ends, and panics exactly if the loop over the environment comes to a
  variable that is not Unicode: one that has only accepted variables before it.  Behind a variable that
  is refused it goes unnoticed, and the result is the error of the refused one.
\<close>

theorem from_env_panics_iff:
  "(returns (from_env env) \<or> from_env env = Panic Not_Unicode) \<and>
   (from_env env = Panic p \<longleftrightarrow> p = Not_Unicode \<and>
     (\<exists>pre k v post. env = pre @ (k, v) # post \<and> (\<forall>kv \<in> set pre. var_ok kv) \<and>
        \<not> (is_unicode k \<and> is_unicode v)))"
  using from_env_ends [of env] from_env_Panic_first [of env p] by auto

theorem from_env_panics_iff_witness:
  "from_env (example_env @ [(''LANG'', [CHR 0xFF])]) = Panic Not_Unicode"
proof -
  have "\<not> is_unicode [CHR 0xFF]" by code_simp
  then show ?thesis
    using from_env_panics_iff [of "example_env @ [(''LANG'', [CHR 0xFF])]" Not_Unicode] example_env_spec(1) by blast
qed

text \<open>
  C40. No other variable of the process matters: in an environment that is Unicode, \<open>from_env\<close> gives the
  same configuration, or the same error, as with only the variables that start with \<open>NSNCD_IGNORE_\<close> and
  the two counts.
\<close>

theorem foreign_variables_irrelevant:
  assumes "\<forall>(k, v) \<in> set env. is_unicode k \<and> is_unicode v"
  shows "from_env env = from_env (filter (\<lambda>(k, v). take 13 k = ''NSNCD_IGNORE_'' \<or>
    k \<in> {''NSNCD_WORKER_COUNT'', ''NSNCD_HANDOFF_TIMEOUT''}) env)"
  using from_env_filter [OF assms] by (simp add: nsncd_var_def)

theorem foreign_variables_irrelevant_witness:
  "from_env [(''HOME'', ''/root''), (''NSNCD_IGNORE_SHELLS'', ''true''), (''NSNCD_WORKER_COUNTS'', ''0'')] =
   from_env [(''NSNCD_IGNORE_SHELLS'', ''true'')]"
  by (subst foreign_variables_irrelevant) (simp_all add: is_unicode_ascii)

end
