(* ===== verification/Ffi.thy ===== *)
theory Ffi
  imports Protocol
begin

section \<open>The C library boundary\<close>

text \<open>
  Model of \<open>src/ffi.rs\<close>: decoding a C \<open>hostent\<close> from memory, and the two retry loops around the
  reentrant lookups of glibc.  C memory is a pair of finite maps, one of bytes and one of pointers;
  reading an address outside them is undefined behaviour.  The glibc functions are parameters: a
  call takes the buffer capacity and the cells it may write, and yields the return code and the
  cells afterwards.  The locale \<open>retry_loop\<close> holds what both loops have in common.
\<close>

subsection \<open>C memory\<close>

type_synonym ptr = nat

abbreviation (input) null :: ptr where
  "null \<equiv> 0"

record cmem =
  mem_u8 :: "(ptr \<times> byte) list"
  mem_ptr :: "(ptr \<times> ptr) list"

record libc_hostent =
  h_name :: ptr
  h_aliases :: ptr
  h_addrtype :: i32
  h_length :: i32
  h_addr_list :: ptr

lemma filter_ge_shrinks:
  fixes a b :: ptr
  assumes "map_of m a = Some v" "a < b"
  shows "length (filter (\<lambda>(k, _). b \<le> k) m) < length (filter (\<lambda>(k, _). a \<le> k) m)"
proof -
  have "length (filter (\<lambda>(k, _). b \<le> k) (filter (\<lambda>(k, _). a \<le> k) m)) <
      length (filter (\<lambda>(k, _). a \<le> k) m)"
    using assms by (intro length_filter_less [of "(a, v)"]) (auto dest: map_of_SomeD)
  moreover have "filter (\<lambda>(k, _). b \<le> k) (filter (\<lambda>(k, _). a \<le> k) m) = filter (\<lambda>(k, _). b \<le> k) m"
    using assms(2) by (auto simp: filter_filter intro!: filter_cong)
  ultimately show ?thesis by simp
qed

text \<open>\<open>CStr::from_ptr\<close>: the bytes up to the first NUL.\<close>

function read_cstr :: "cmem \<Rightarrow> ptr \<Rightarrow> ('e, byte list) outcome" where
  "read_cstr m a = (case map_of (mem_u8 m) a of
     None \<Rightarrow> Undefined
   | Some b \<Rightarrow> (if b = 0 then Ok [] else obind (read_cstr m (Suc a)) (\<lambda>bs. Ok (b # bs))))"
  by pat_completeness auto
termination
  by (relation "measure (\<lambda>(m, a). length (filter (\<lambda>(k, _). a \<le> k) (mem_u8 m)))")
    (auto intro: filter_ge_shrinks)

text \<open>\<open>ptr::read\<close> of \<open>n\<close> octets.\<close>

definition read_octets :: "cmem \<Rightarrow> ptr \<Rightarrow> nat \<Rightarrow> ('e, byte list) outcome" where
  "read_octets m a n = omap (\<lambda>i. case map_of (mem_u8 m) (a + i) of
     None \<Rightarrow> Undefined | Some b \<Rightarrow> Ok b) [0..<n]"

subsection \<open>Host entries\<close>

datatype LibcIp = LibcIp_V4 "byte list" | LibcIp_V6 "byte list"

record Hostent =
  he_name :: "byte list"
  he_aliases :: "byte list list"
  he_addr_type :: i32
  he_addr_list :: "IpAddr list"
  he_herrno :: i32

definition Hostent_error_value :: "i32 \<Rightarrow> Hostent" where
  "Hostent_error_value herrno = \<lparr>he_name = [], he_aliases = [], he_addr_type = - 1,
     he_addr_list = [], he_herrno = herrno\<rparr>"

datatype hostent_failure =
    Unsupported_Address_Type i32
  | Unsupported_Length_AF_INET i32
  | Unsupported_Length_AF_INET6 i32
  | H_Name_Is_Null

datatype HostentError = HError i32 | Other hostent_failure

text \<open>The two loops over null-terminated arrays of pointers.\<close>

function alias_loop :: "cmem \<Rightarrow> ptr \<Rightarrow> ('e, byte list list) outcome" where
  "alias_loop m p = (case map_of (mem_ptr m) p of
     None \<Rightarrow> Undefined
   | Some q \<Rightarrow>
       (if q = null then Ok []
        else obind (read_cstr m q) (\<lambda>a. obind (alias_loop m (p + 8)) (\<lambda>as. Ok (a # as)))))"
  by pat_completeness auto
termination
  by (relation "measure (\<lambda>(m, p). length (filter (\<lambda>(k, _). p \<le> k) (mem_ptr m)))")
    (auto intro: filter_ge_shrinks)

definition read_ip :: "target \<Rightarrow> cmem \<Rightarrow> i32 \<Rightarrow> ptr \<Rightarrow> ('e, IpAddr) outcome" where
  "read_ip t m af q =
     (if af = tgt_AF_INET t then obind (read_octets m q 4) (\<lambda>octets. Ok (V4 octets))
      else obind (read_octets m q 16) (\<lambda>octets. Ok (V6 octets)))"

function addr_loop :: "target \<Rightarrow> cmem \<Rightarrow> i32 \<Rightarrow> ptr \<Rightarrow> ('e, IpAddr list) outcome" where
  "addr_loop t m af p = (case map_of (mem_ptr m) p of
     None \<Rightarrow> Undefined
   | Some q \<Rightarrow>
       (if q = null then Ok []
        else obind (read_ip t m af q) (\<lambda>a.
          obind (addr_loop t m af (p + 8)) (\<lambda>as. Ok (a # as)))))"
  by pat_completeness auto
termination
  by (relation "measure (\<lambda>(t, m, af, p). length (filter (\<lambda>(k, _). p \<le> k) (mem_ptr m)))")
    (auto intro: filter_ge_shrinks)

declare read_cstr.simps [simp del] alias_loop.simps [simp del] addr_loop.simps [simp del]

definition from_libc_hostent :: "target \<Rightarrow> cmem \<Rightarrow> libc_hostent \<Rightarrow> (HostentError, Hostent) outcome"
where
  "from_libc_hostent t m value =
     (if h_addrtype value \<noteq> tgt_AF_INET t \<and> h_addrtype value \<noteq> tgt_AF_INET6 t
      then Err (Other (Unsupported_Address_Type (h_addrtype value)))
      else if h_addrtype value = tgt_AF_INET t \<and> h_length value \<noteq> 4
      then Err (Other (Unsupported_Length_AF_INET (h_length value)))
      else if h_addrtype value = tgt_AF_INET6 t \<and> h_length value \<noteq> 16
      then Err (Other (Unsupported_Length_AF_INET6 (h_length value)))
      else if h_name value = null then Err (Other H_Name_Is_Null)
      else
        obind (read_cstr m (h_name value)) (\<lambda>name.
        obind (alias_loop m (h_aliases value)) (\<lambda>aliases.
        obind (addr_loop t m (h_addrtype value) (h_addr_list value)) (\<lambda>addr_list.
        Ok \<lparr>he_name = name, he_aliases = aliases, he_addr_type = h_addrtype value,
            he_addr_list = addr_list, he_herrno = 0\<rparr>))))"

subsection \<open>Lookups\<close>

text \<open>
  The cells a glibc lookup writes: the memory its result points into, the result pointer (null, or
  a pointer to the \<open>hostent\<close> it filled in) and \<open>h_errno\<close>.
\<close>

record ffi_state =
  ffi_mem :: cmem
  ffi_result :: "libc_hostent option"
  ffi_herrno :: i32

type_synonym gethost_call = "nat \<Rightarrow> ffi_state \<Rightarrow> i32 \<times> ffi_state"

definition ffi_init :: ffi_state where
  "ffi_init = \<lparr>ffi_mem = \<lparr>mem_u8 = [], mem_ptr = []\<rparr>, ffi_result = None, ffi_herrno = 0\<rparr>"

definition unmarshal_gethostbyxx ::
  "target \<Rightarrow> cmem \<Rightarrow> libc_hostent option \<Rightarrow> i32 \<Rightarrow> (HostentError, Hostent) outcome" where
  "unmarshal_gethostbyxx t m hostent herrno = (case hostent of
     Some value \<Rightarrow> from_libc_hostent t m value
   | None \<Rightarrow> Err (HError herrno))"

partial_function (option) gethostbyaddr_loop ::
  "target \<Rightarrow> gethost_call \<Rightarrow> nat \<Rightarrow> ffi_state \<Rightarrow> (HostentError, ffi_state) outcome option" where
  "gethostbyaddr_loop t call cap st = (case call cap st of (ret, st') \<Rightarrow>
     if ret = tgt_ERANGE t \<and> cap < 10 * 1000 * 1000
     then (case vec_reserve 0 cap (cap * 2) of
             Ok cap' \<Rightarrow> gethostbyaddr_loop t call cap' st'
           | Err e \<Rightarrow> Some (Err e)
           | Panic p \<Rightarrow> Some (Panic p)
           | Undefined \<Rightarrow> Some Undefined
           | Diverge \<Rightarrow> None)
     else Some (Ok st'))"

definition gethostbyaddr_r ::
  "target \<Rightarrow> (byte list \<Rightarrow> nat \<Rightarrow> i32 \<Rightarrow> gethost_call) \<Rightarrow> LibcIp \<Rightarrow> (HostentError, Hostent) outcome"
where
  "gethostbyaddr_r t glibc addr =
     (let (a, len, af) = (case addr of
        LibcIp_V4 ipv4 \<Rightarrow> (ipv4, 4, tgt_AF_INET t)
      | LibcIp_V6 ipv6 \<Rightarrow> (ipv6, 16, tgt_AF_INET6 t))
      in obind (from_loop (gethostbyaddr_loop t (glibc a len af) 1024 ffi_init)) (\<lambda>st.
         unmarshal_gethostbyxx t (ffi_mem st) (ffi_result st) (ffi_herrno st)))"

partial_function (option) gethostbyname2_loop ::
  "target \<Rightarrow> gethost_call \<Rightarrow> nat \<Rightarrow> ffi_state \<Rightarrow> (HostentError, ffi_state) outcome option" where
  "gethostbyname2_loop t call cap st = (case call cap st of (ret, st') \<Rightarrow>
     if ret = tgt_ERANGE t
     then (case vec_reserve 0 cap (cap * 2) of
             Ok cap' \<Rightarrow> gethostbyname2_loop t call cap' st'
           | Err e \<Rightarrow> Some (Err e)
           | Panic p \<Rightarrow> Some (Panic p)
           | Undefined \<Rightarrow> Some Undefined
           | Diverge \<Rightarrow> None)
     else Some (Ok st'))"

definition gethostbyname2_r ::
  "target \<Rightarrow> (byte list \<Rightarrow> i32 \<Rightarrow> gethost_call) \<Rightarrow> byte list \<Rightarrow> i32 \<Rightarrow> (HostentError, Hostent) outcome"
where
  "gethostbyname2_r t glibc name af =
     (if \<not> cstring_ok name then Panic Unwrap_Err
      else obind (from_loop (gethostbyname2_loop t (glibc name af) 1024 ffi_init)) (\<lambda>st.
        unmarshal_gethostbyxx t (ffi_mem st) (ffi_result st) (ffi_herrno st)))"

section \<open>Lemmas of the C library boundary\<close>

subsection \<open>What memory holds\<close>

definition cstring_at :: "cmem \<Rightarrow> ptr \<Rightarrow> byte list \<Rightarrow> bool" where
  "cstring_at m a s \<longleftrightarrow> cstring_ok s \<and>
     (\<forall>i \<le> length s. map_of (mem_u8 m) (a + i) = Some (with_nul s ! i))"

definition octets_at :: "cmem \<Rightarrow> ptr \<Rightarrow> byte list \<Rightarrow> bool" where
  "octets_at m a bs \<longleftrightarrow> (\<forall>i < length bs. map_of (mem_u8 m) (a + i) = Some (bs ! i))"

text \<open>A null-terminated array of pointers, each to an object described by \<open>R\<close>.\<close>

fun ptr_array_at :: "cmem \<Rightarrow> (ptr \<Rightarrow> 'x \<Rightarrow> bool) \<Rightarrow> ptr \<Rightarrow> 'x list \<Rightarrow> bool" where
  "ptr_array_at m R p [] \<longleftrightarrow> map_of (mem_ptr m) p = Some null"
| "ptr_array_at m R p (x # xs) \<longleftrightarrow>
     (\<exists>q. map_of (mem_ptr m) p = Some q \<and> q \<noteq> null \<and> R q x) \<and> ptr_array_at m R (p + 8) xs"

lemma read_cstr_at: "cstring_at m a s \<Longrightarrow> read_cstr m a = Ok s"
proof (induction s arbitrary: a)
  case Nil
  then show ?case by (simp add: cstring_at_def with_nul_def read_cstr.simps [of m a])
next
  case (Cons b s)
  then have "map_of (mem_u8 m) a = Some b" "b \<noteq> 0"
    by (auto simp: cstring_at_def with_nul_def cstring_ok_def dest: spec [of _ 0])
  moreover have "cstring_at m (Suc a) s"
    using Cons.prems by (auto simp: cstring_at_def with_nul_def cstring_ok_def dest: spec [of _ "Suc _"])
  ultimately show ?case using Cons.IH by (simp add: read_cstr.simps [of m a])
qed

lemma read_cstr_cstring_ok: "read_cstr m a = Ok s \<Longrightarrow> cstring_ok s"
proof (induction m a arbitrary: s rule: read_cstr.induct)
  case (1 m a)
  from "1.prems" show ?case
    by (subst (asm) read_cstr.simps)
      (auto simp: obind_eq_Ok cstring_ok_def dest: "1.IH" split: option.splits if_splits)
qed

lemma read_octets_at: "octets_at m a bs \<Longrightarrow> read_octets m a (length bs) = Ok bs"
  unfolding read_octets_def octets_at_def
  by (subst omap_Ok_map [where g = "(!) bs"]) (auto simp: map_nth)

lemma read_octets_length: "read_octets m a n = Ok bs \<Longrightarrow> length bs = n"
  unfolding read_octets_def by (drule omap_eq_Ok_length) simp

lemma alias_loop_at: "ptr_array_at m (cstring_at m) p as \<Longrightarrow> alias_loop m p = Ok as"
  by (induction m "cstring_at m" p as rule: ptr_array_at.induct)
    (auto simp: alias_loop.simps [of m p for m p] read_cstr_at)

lemma alias_loop_cstring_ok: "alias_loop m p = Ok as \<Longrightarrow> list_all cstring_ok as"
proof (induction m p arbitrary: "as" rule: alias_loop.induct)
  case (1 m p)
  from "1.prems" show ?case
    by (subst (asm) alias_loop.simps)
      (auto simp: obind_eq_Ok read_cstr_cstring_ok dest: "1.IH" split: option.splits if_splits)
qed

definition ip_octets :: "IpAddr \<Rightarrow> byte list" where
  "ip_octets a = (case a of V4 bs \<Rightarrow> bs | V6 bs \<Rightarrow> bs)"

text \<open>An address of family \<open>af\<close>: four octets for \<open>AF_INET\<close>, sixteen otherwise.\<close>

definition ip_of_family :: "target \<Rightarrow> i32 \<Rightarrow> IpAddr \<Rightarrow> bool" where
  "ip_of_family t af a \<longleftrightarrow> (case a of
     V4 bs \<Rightarrow> af = tgt_AF_INET t \<and> length bs = 4
   | V6 bs \<Rightarrow> af \<noteq> tgt_AF_INET t \<and> length bs = 16)"

definition ip_at :: "target \<Rightarrow> cmem \<Rightarrow> i32 \<Rightarrow> ptr \<Rightarrow> IpAddr \<Rightarrow> bool" where
  "ip_at t m af q a \<longleftrightarrow> ip_of_family t af a \<and> octets_at m q (ip_octets a)"

lemma read_ip_at:
  assumes "ip_at t m af q a"
  shows "(read_ip t m af q :: ('e, IpAddr) outcome) = Ok a"
proof -
  have "(read_octets m q (length (ip_octets a)) :: ('e, byte list) outcome) = Ok (ip_octets a)"
    using assms by (intro read_octets_at) (simp add: ip_at_def)
  with assms show ?thesis
    by (auto simp: read_ip_def ip_at_def ip_of_family_def ip_octets_def split: IpAddr.splits)
qed

lemma read_ip_family: "read_ip t m af q = Ok a \<Longrightarrow> ip_of_family t af a"
  by (auto simp: read_ip_def ip_of_family_def obind_eq_Ok read_octets_length split: if_splits)

lemma addr_loop_at: "ptr_array_at m (ip_at t m af) p as \<Longrightarrow> addr_loop t m af p = Ok as"
  by (induction m "ip_at t m af" p "as" rule: ptr_array_at.induct)
    (auto simp: addr_loop.simps [of t m af p for m p] read_ip_at)

lemma addr_loop_family: "addr_loop t m af p = Ok as \<Longrightarrow> list_all (ip_of_family t af) as"
proof (induction t m af p arbitrary: "as" rule: addr_loop.induct)
  case (1 t m af p)
  from "1.prems" show ?case
    by (subst (asm) addr_loop.simps)
      (auto simp: obind_eq_Ok read_ip_family dest: "1.IH" split: option.splits if_splits)
qed

text \<open>The host entries the decoder can return.\<close>

definition wf_hostent :: "target \<Rightarrow> Hostent \<Rightarrow> bool" where
  "wf_hostent t h \<longleftrightarrow> cstring_ok (he_name h) \<and> list_all cstring_ok (he_aliases h) \<and>
     he_addr_type h \<in> {tgt_AF_INET t, tgt_AF_INET6 t} \<and>
     list_all (ip_of_family t (he_addr_type h)) (he_addr_list h) \<and> he_herrno h = 0"

lemma from_libc_hostent_wf: "from_libc_hostent t m v = Ok h \<Longrightarrow> wf_hostent t h"
  by (auto simp: from_libc_hostent_def wf_hostent_def obind_eq_Ok
      dest: read_cstr_cstring_ok alias_loop_cstring_ok addr_loop_family split: if_splits)

text \<open>Memory holds the entry \<open>h\<close>, laid out as the fields of the C structure \<open>v\<close> say.\<close>

definition hostent_at :: "target \<Rightarrow> cmem \<Rightarrow> libc_hostent \<Rightarrow> Hostent \<Rightarrow> bool" where
  "hostent_at t m v h \<longleftrightarrow>
     (h_addrtype v = tgt_AF_INET t \<and> h_length v = 4 \<or>
      h_addrtype v = tgt_AF_INET6 t \<and> tgt_AF_INET t \<noteq> tgt_AF_INET6 t \<and> h_length v = 16) \<and>
     h_name v \<noteq> null \<and> cstring_at m (h_name v) (he_name h) \<and>
     ptr_array_at m (cstring_at m) (h_aliases v) (he_aliases h) \<and>
     ptr_array_at m (ip_at t m (h_addrtype v)) (h_addr_list v) (he_addr_list h) \<and>
     he_addr_type h = h_addrtype v \<and> he_herrno h = 0"

lemma from_libc_hostent_at:
  assumes "hostent_at t m v h" "tgt_AF_INET t \<noteq> tgt_AF_INET6 t"
  shows "from_libc_hostent t m v = Ok h"
  using assms by (cases h) (auto simp: hostent_at_def from_libc_hostent_def read_cstr_at alias_loop_at addr_loop_at)

subsection \<open>The retry loops\<close>

text \<open>
  A loop that calls, and doubles the buffer and calls again as long as a test of the capacity and
  the return code asks for it.  \<open>attempt k\<close> is the \<open>k\<close>-th call, with a buffer of \<open>1024 * 2 ^ k\<close>.
\<close>

fun attempt :: "gethost_call \<Rightarrow> nat \<Rightarrow> ffi_state \<Rightarrow> i32 \<times> ffi_state" where
  "attempt call 0 st = call 1024 st"
| "attempt call (Suc k) st = call (1024 * 2 ^ Suc k) (snd (attempt call k st))"

lemma vec_reserve_double:
  "0 < cap \<Longrightarrow> vec_reserve 0 cap (cap * 2) =
     (if cap * 2 \<le> isize_max then Ok (max 8 (cap * 2)) else Panic Capacity_Overflow)"
  by (auto simp: vec_reserve_def Let_def)

locale retry_loop =
  fixes loop :: "nat \<Rightarrow> ffi_state \<Rightarrow> ('e, ffi_state) outcome option"
    and call :: gethost_call
    and retry :: "nat \<Rightarrow> i32 \<Rightarrow> bool"
  assumes unfold: "loop cap st = (case call cap st of (ret, st') \<Rightarrow>
     if retry cap ret
     then (case vec_reserve 0 cap (cap * 2) of
             Ok cap' \<Rightarrow> loop cap' st'
           | Err e \<Rightarrow> Some (Err e)
           | Panic p \<Rightarrow> Some (Panic p)
           | Undefined \<Rightarrow> Some Undefined
           | Diverge \<Rightarrow> None)
     else Some (Ok st'))"
begin

lemma step:
  assumes "8 \<le> cap" "retry cap (fst (call cap st))"
  shows "loop cap st =
    (if cap * 2 \<le> isize_max then loop (cap * 2) (snd (call cap st)) else Some (Panic Capacity_Overflow))"
  using assms by (subst unfold) (auto simp: vec_reserve_double max_def split: prod.split)

lemma stop: "\<not> retry cap (fst (call cap st)) \<Longrightarrow> loop cap st = Some (Ok (snd (call cap st)))"
  by (subst unfold) (auto split: prod.split)

lemma after_retries:
  assumes "\<And>j. j \<le> k \<Longrightarrow> retry (1024 * 2 ^ j) (fst (attempt call j st))" "1024 * 2 ^ Suc k \<le> isize_max"
  shows "loop 1024 st = loop (1024 * 2 ^ Suc k) (snd (attempt call k st))"
  using assms
proof (induction k)
  case 0
  then show ?case using step [of 1024 st] by simp
next
  case (Suc k)
  have "loop 1024 st = loop (1024 * 2 ^ Suc k) (snd (attempt call k st))"
    using Suc by simp
  also have "\<dots> = loop (1024 * 2 ^ Suc (Suc k)) (snd (attempt call (Suc k) st))"
    using step [of "1024 * 2 ^ Suc k" "snd (attempt call k st)"] Suc.prems(1) [of "Suc k"] Suc.prems(2)
    by (simp add: mult.commute)
  finally show ?case .
qed

lemma at_attempt:
  assumes "\<And>j. j < k \<Longrightarrow> retry (1024 * 2 ^ j) (fst (attempt call j st))" "1024 * 2 ^ k \<le> isize_max"
  shows "loop 1024 st = loop (1024 * 2 ^ k) (case k of 0 \<Rightarrow> st | Suc i \<Rightarrow> snd (attempt call i st))"
  using assms after_retries [of "k - 1" st] by (cases k) auto

lemma result:
  assumes "\<And>j. j < k \<Longrightarrow> retry (1024 * 2 ^ j) (fst (attempt call j st))"
    and "\<not> retry (1024 * 2 ^ k) (fst (attempt call k st))" "1024 * 2 ^ k \<le> isize_max"
  shows "loop 1024 st = Some (Ok (snd (attempt call k st)))"
  using at_attempt [OF assms(1,3)] assms(2) by (cases k) (auto simp: stop)

lemma overflow:
  assumes "\<And>j. j \<le> 52 \<Longrightarrow> retry (1024 * 2 ^ j) (fst (attempt call j st))"
  shows "loop 1024 st = Some (Panic Capacity_Overflow)"
proof -
  have "loop 1024 st = loop (1024 * 2 ^ Suc 51) (snd (attempt call 51 st))"
    using assms by (intro after_retries) simp_all
  also have "\<dots> = Some (Panic Capacity_Overflow)"
    using assms [of 52] attempt.simps(2) [of call 51 st] by (subst step) simp_all
  finally show ?thesis .
qed

end

interpretation by_addr: retry_loop "gethostbyaddr_loop t call" call
  "\<lambda>cap ret. ret = tgt_ERANGE t \<and> cap < 10000000" for t call
  by standard (subst gethostbyaddr_loop.simps, simp)

interpretation by_name: retry_loop "gethostbyname2_loop t call" call
  "\<lambda>cap ret. ret = tgt_ERANGE t" for t call
  by standard (subst gethostbyname2_loop.simps, simp)

lemma first_attempt:
  fixes retry :: "nat \<Rightarrow> bool"
  assumes "\<not> retry n"
  shows "\<exists>k \<le> n. \<not> retry k \<and> (\<forall>j < k. retry j)"
  using assms LeastI [of "\<lambda>k. \<not> retry k" n] Least_le [of "\<lambda>k. \<not> retry k" n]
    not_less_Least [of _ "\<lambda>k. \<not> retry k"] by blast

lemma gethostbyaddr_loop_first:
  "\<exists>k \<le> 14. gethostbyaddr_loop t call 1024 st = Some (Ok (snd (attempt call k st))) \<and>
     (\<forall>j < k. fst (attempt call j st) = tgt_ERANGE t) \<and>
     (k < 14 \<longrightarrow> fst (attempt call k st) \<noteq> tgt_ERANGE t)"
proof -
  let ?retry = "\<lambda>j. fst (attempt call j st) = tgt_ERANGE t \<and> 1024 * 2 ^ j < (10000000 :: nat)"
  obtain k where k: "k \<le> 14" "\<not> ?retry k" "\<forall>j < k. ?retry j"
    using first_attempt [of ?retry 14] by auto
  have pow: "1024 * 2 ^ j \<le> (1024 * 2 ^ i :: nat)" if "j \<le> i" for i j :: nat
    using that by simp
  have "1024 * 2 ^ k \<le> isize_max" using pow [OF k(1)] by simp
  then have "gethostbyaddr_loop t call 1024 st = Some (Ok (snd (attempt call k st)))"
    using k by (intro by_addr.result) auto
  moreover have "fst (attempt call k st) \<noteq> tgt_ERANGE t" if "k < 14"
    using k(2) pow [of k 13] that by simp
  ultimately show ?thesis using k by blast
qed

lemma gethostbyname2_loop_first:
  "if \<forall>j \<le> 52. fst (attempt call j st) = tgt_ERANGE t
   then gethostbyname2_loop t call 1024 st = Some (Panic Capacity_Overflow)
   else \<exists>k \<le> 52. gethostbyname2_loop t call 1024 st = Some (Ok (snd (attempt call k st))) \<and>
     (\<forall>j < k. fst (attempt call j st) = tgt_ERANGE t) \<and> fst (attempt call k st) \<noteq> tgt_ERANGE t"
proof (cases "\<forall>j \<le> 52. fst (attempt call j st) = tgt_ERANGE t")
  case True
  then show ?thesis using by_name.overflow [where t = t and call = call and st = st] by simp
next
  case False
  then obtain n where n: "n \<le> 52" "fst (attempt call n st) \<noteq> tgt_ERANGE t" by auto
  then obtain k where k: "k \<le> n" "fst (attempt call k st) \<noteq> tgt_ERANGE t"
    "\<forall>j < k. fst (attempt call j st) = tgt_ERANGE t"
    using first_attempt [of "\<lambda>j. fst (attempt call j st) = tgt_ERANGE t" n] by blast
  have "(2 :: nat) ^ k \<le> 2 ^ 52" using k n by (intro power_increasing) simp_all
  then have "gethostbyname2_loop t call 1024 st = Some (Ok (snd (attempt call k st)))"
    using k by (intro by_name.result) auto
  moreover have "k \<le> 52" using k(1) n(1) by simp
  ultimately show ?thesis using False k by auto
qed

lemma unmarshal_wf: "unmarshal_gethostbyxx t m r e = Ok h \<Longrightarrow> wf_hostent t h"
  by (auto simp: unmarshal_gethostbyxx_def dest: from_libc_hostent_wf split: option.splits)

lemma gethostbyaddr_r_wf: "gethostbyaddr_r t glibc addr = Ok h \<Longrightarrow> wf_hostent t h"
  by (auto simp: gethostbyaddr_r_def obind_eq_Ok dest: unmarshal_wf split: prod.splits)

lemma gethostbyname2_r_wf: "gethostbyname2_r t glibc name af = Ok h \<Longrightarrow> wf_hostent t h"
  by (auto simp: gethostbyname2_r_def obind_eq_Ok dest: unmarshal_wf split: if_splits)

text \<open>Outcomes other than a value, an error and undefined behaviour do not occur in decoding.\<close>

fun no_panic :: "('e, 'a) outcome \<Rightarrow> bool" where
  "no_panic (Panic p) = False"
| "no_panic Diverge = False"
| "no_panic _ = True"

lemma no_panic_obind: "no_panic x \<Longrightarrow> (\<And>a. x = Ok a \<Longrightarrow> no_panic (f a)) \<Longrightarrow> no_panic (obind x f)"
  by (cases x) simp_all

lemma no_panic_omap: "(\<And>x. x \<in> set xs \<Longrightarrow> no_panic (f x)) \<Longrightarrow> no_panic (omap f xs)"
  by (induction xs) (auto intro!: no_panic_obind)

lemma no_panic_read_cstr [simp]: "no_panic (read_cstr m a)"
  by (induction m a rule: read_cstr.induct)
    (subst read_cstr.simps, auto intro!: no_panic_obind split: option.split)

lemma no_panic_alias_loop [simp]: "no_panic (alias_loop m p)"
  by (induction m p rule: alias_loop.induct)
    (subst alias_loop.simps, auto intro!: no_panic_obind split: option.split)

lemma no_panic_read_ip [simp]: "no_panic (read_ip t m af q)"
  by (auto simp: read_ip_def read_octets_def intro!: no_panic_obind no_panic_omap split: option.split)

lemma no_panic_addr_loop [simp]: "no_panic (addr_loop t m af p)"
  by (induction t m af p rule: addr_loop.induct)
    (subst addr_loop.simps, auto intro!: no_panic_obind split: option.split)

lemma no_panic_unmarshal [simp]: "no_panic (unmarshal_gethostbyxx t m r e)"
  by (auto simp: unmarshal_gethostbyxx_def from_libc_hostent_def intro!: no_panic_obind split: option.split)

lemma no_panic_gethostbyaddr_r: "no_panic (gethostbyaddr_r t glibc addr)"
proof -
  have "no_panic (from_loop (gethostbyaddr_loop t call 1024 st))" for call st
    using gethostbyaddr_loop_first [of t call st] by auto
  then show ?thesis
    by (auto simp: gethostbyaddr_r_def Let_def intro!: no_panic_obind split: prod.split)
qed

text \<open>A \<open>hostent\<close> for the host \<open>h\<close> with one alias \<open>a\<close> and the address 127.0.0.1.\<close>

definition example_mem :: cmem where
  "example_mem = \<lparr>mem_u8 = [(100, 104), (101, 0), (110, 97), (111, 0),
       (120, 127), (121, 0), (122, 0), (123, 1)],
     mem_ptr = [(200, 110), (208, 0), (300, 120), (308, 0)]\<rparr>"

definition example_hostent :: libc_hostent where
  "example_hostent = \<lparr>h_name = 100, h_aliases = 200, h_addrtype = 2, h_length = 4, h_addr_list = 300\<rparr>"

lemma example_in_memory:
  "cstring_at example_mem 100 [104]"
  "ptr_array_at example_mem (cstring_at example_mem) 200 [[97]]"
  "ptr_array_at example_mem (ip_at linux_release example_mem 2) 300 [V4 [127, 0, 0, 1]]"
proof -
  have "octets_at example_mem 120 [127, 0, 0, 1]"
    by (auto simp: octets_at_def example_mem_def less_Suc_eq numeral_eq_Suc)
  then have "ip_at linux_release example_mem 2 120 (V4 [127, 0, 0, 1])"
    by (simp add: ip_at_def ip_of_family_def ip_octets_def linux_release_def)
  then show "ptr_array_at example_mem (ip_at linux_release example_mem 2) 300 [V4 [127, 0, 0, 1]]"
    by (simp add: example_mem_def)
  have "cstring_at example_mem 110 [97]"
    by (auto simp: cstring_at_def cstring_ok_def with_nul_def example_mem_def le_Suc_eq)
  then show "ptr_array_at example_mem (cstring_at example_mem) 200 [[97]]"
    by (simp add: example_mem_def)
  show "cstring_at example_mem 100 [104]"
    by (auto simp: cstring_at_def cstring_ok_def with_nul_def example_mem_def le_Suc_eq)
qed

section \<open>Properties of the C library boundary\<close>

text \<open>
  C27. Decoding a C \<open>hostent\<close> is correct: if memory holds a name, a null-terminated array of alias
  strings and a null-terminated array of addresses of the declared family and length, then
  \<open>from_libc_hostent\<close> terminates and returns exactly that name, those aliases and those addresses,
  in order, with \<open>h_errno\<close> cleared.
\<close>

theorem from_libc_hostent_decodes:
  assumes "tgt_AF_INET t \<noteq> tgt_AF_INET6 t"
    and "h_addrtype v = tgt_AF_INET t \<and> h_length v = 4 \<or> h_addrtype v = tgt_AF_INET6 t \<and> h_length v = 16"
    and "h_name v \<noteq> null" "cstring_at m (h_name v) name"
    and "ptr_array_at m (cstring_at m) (h_aliases v) aliases"
    and "ptr_array_at m (ip_at t m (h_addrtype v)) (h_addr_list v) addrs"
  shows "from_libc_hostent t m v =
    Ok \<lparr>he_name = name, he_aliases = aliases, he_addr_type = h_addrtype v, he_addr_list = addrs,
        he_herrno = 0\<rparr>"
  using assms
  by (auto simp: from_libc_hostent_def read_cstr_at alias_loop_at addr_loop_at)

theorem from_libc_hostent_decodes_witness:
  "from_libc_hostent linux_release example_mem example_hostent =
   Ok \<lparr>he_name = [104], he_aliases = [[97]], he_addr_type = 2, he_addr_list = [V4 [127, 0, 0, 1]],
       he_herrno = 0\<rparr>"
  using from_libc_hostent_decodes
    [of linux_release example_hostent example_mem "[104]" "[[97]]" "[V4 [127, 0, 0, 1]]"]
    example_in_memory
  by (simp add: example_hostent_def linux_release_def)

text \<open>
  C28. The retry loop of \<open>gethostbyaddr_r\<close> ends after at most fifteen calls of glibc, with a buffer
  of at most 16 MiB: it returns what the first call that did not report \<open>ERANGE\<close> left, or what the
  fifteenth call left.
\<close>

theorem gethostbyaddr_loop_bounded:
  "\<exists>k \<le> 14. gethostbyaddr_loop t call 1024 st = Some (Ok (snd (attempt call k st))) \<and>
     1024 * 2 ^ k \<le> (16777216 :: nat) \<and>
     (\<forall>j < k. fst (attempt call j st) = tgt_ERANGE t) \<and>
     (k < 14 \<longrightarrow> fst (attempt call k st) \<noteq> tgt_ERANGE t)"
proof -
  have "1024 * 2 ^ k \<le> (16777216 :: nat)" if "k \<le> 14" for k :: nat
    using power_increasing [OF that, of "2 :: nat"] by simp
  then show ?thesis using gethostbyaddr_loop_first [of t call st] by blast
qed

theorem gethostbyaddr_loop_bounded_witness:
  "\<exists>k \<le> 14. gethostbyaddr_loop linux_release (\<lambda>cap st. (if cap < 2000 then 34 else 0, st)) 1024 ffi_init =
      Some (Ok ffi_init) \<and> 1024 * 2 ^ k \<le> (16777216 :: nat)"
proof -
  let ?call = "\<lambda>cap st. (if cap < (2000 :: nat) then 34 else 0, st :: ffi_state)"
  have "snd (attempt ?call k st) = st" for k st by (induction k) simp_all
  then show ?thesis using gethostbyaddr_loop_bounded [of linux_release ?call ffi_init] by auto
qed

text \<open>
  C29. The retry loop of \<open>gethostbyname2_r\<close> has no bound of its own, but still ends: it returns what
  the first call that did not report \<open>ERANGE\<close> left, and if the first 53 calls all report \<open>ERANGE\<close>
  then growing the buffer beyond \<open>isize::MAX\<close> bytes panics.
\<close>

theorem gethostbyname2_loop_ends:
  "if \<forall>j \<le> 52. fst (attempt call j st) = tgt_ERANGE t
   then gethostbyname2_loop t call 1024 st = Some (Panic Capacity_Overflow)
   else \<exists>k \<le> 52. gethostbyname2_loop t call 1024 st = Some (Ok (snd (attempt call k st))) \<and>
     (\<forall>j < k. fst (attempt call j st) = tgt_ERANGE t) \<and> fst (attempt call k st) \<noteq> tgt_ERANGE t"
  by (rule gethostbyname2_loop_first)

theorem gethostbyname2_loop_ends_witness:
  "gethostbyname2_loop linux_release (\<lambda>cap st. (34, st)) 1024 ffi_init = Some (Panic Capacity_Overflow)"
proof -
  have "fst (attempt (\<lambda>cap st. (34, st)) k ffi_init) = 34" for k by (cases k) simp_all
  then show ?thesis
    using gethostbyname2_loop_ends [of "\<lambda>cap st. (34, st)" ffi_init linux_release]
    by (simp add: linux_release_def)
qed

end
