(* ===== verification/Serialize.thy ===== *)
theory Serialize
  imports Ffi
begin

section \<open>Serialising replies\<close>

text \<open>
  Model of the serialisers of \<open>src/handlers.rs\<close> (\<open>serialize_user\<close>, \<open>serialize_group\<close>,
  \<open>serialize_initgroups\<close>, \<open>serialize_hostent\<close>, \<open>serialize_address_info\<close>), and the reply a client
  reads: decoders written from the layout the protocol documents, which consume the header and then
  the strings and arrays it announces.  The properties are the round trips between the two.
\<close>

subsection \<open>Serialisers\<close>

text \<open>The fields of \<open>nix::unistd::User\<close> and \<open>nix::unistd::Group\<close> that the program reads.\<close>

record User =
  u_name :: "byte list"
  u_passwd :: "byte list"
  u_uid :: u32
  u_gid :: u32
  u_gecos :: "byte list"
  u_dir :: "byte list"
  u_shell :: "byte list"

record Group =
  g_name :: "byte list"
  g_passwd :: "byte list"
  g_gid :: u32
  g_mem :: "byte list list"

definition serialize_user :: "target \<Rightarrow> User option \<Rightarrow> (error, byte list) outcome" where
  "serialize_user t user = (case user of
     Some data \<Rightarrow>
       obind (cstring_new (u_name data)) (\<lambda>name.
       let name_bytes = with_nul name;
           passwd_bytes = with_nul (u_passwd data);
           gecos_bytes = with_nul (u_gecos data)
       in
       obind (cstring_new (u_dir data)) (\<lambda>dir.
       let dir_bytes = with_nul dir in
       obind (cstring_new (u_shell data)) (\<lambda>shell.
       let shell_bytes = with_nul shell in
       obind (i32_of_usize (length name_bytes)) (\<lambda>name_len.
       obind (i32_of_usize (length passwd_bytes)) (\<lambda>passwd_len.
       obind (i32_of_usize (length gecos_bytes)) (\<lambda>gecos_len.
       obind (i32_of_usize (length dir_bytes)) (\<lambda>dir_len.
       obind (i32_of_usize (length shell_bytes)) (\<lambda>shell_len.
       Ok (PwResponseHeader_as_slice t
             \<lparr>pw_version = VERSION, pw_found = 1, pw_name_len = name_len,
              pw_passwd_len = passwd_len, pw_uid = u_uid data, pw_gid = u_gid data,
              pw_gecos_len = gecos_len, pw_dir_len = dir_len, pw_shell_len = shell_len\<rparr> @
           name_bytes @ passwd_bytes @ gecos_bytes @ dir_bytes @ shell_bytes)))))))))
   | None \<Rightarrow> Ok (PwResponseHeader_as_slice t PwResponseHeader_default))"

definition serialize_group :: "target \<Rightarrow> Group option \<Rightarrow> (error, byte list) outcome" where
  "serialize_group t grp = (case grp of
     Some data \<Rightarrow>
       obind (cstring_new (g_name data)) (\<lambda>name.
       let name_bytes = with_nul name;
           mem_cnt = length (g_mem data);
           passwd_bytes = with_nul (g_passwd data)
       in
       obind (omap cstring_new (g_mem data)) (\<lambda>members.
       let members_bytes = map with_nul members in
       obind (i32_of_usize (length name_bytes)) (\<lambda>name_len.
       obind (i32_of_usize (length passwd_bytes)) (\<lambda>passwd_len.
       obind (i32_of_usize mem_cnt) (\<lambda>cnt.
       obind (omap (\<lambda>m. obind (i32_of_usize (length m)) (\<lambda>l. Ok (to_ne_bytes t l))) members_bytes)
         (\<lambda>sizes.
       Ok (GrResponseHeader_as_slice t
             \<lparr>gr_version = VERSION, gr_found = 1, gr_name_len = name_len,
              gr_passwd_len = passwd_len, gr_gid = g_gid data, gr_mem_cnt = cnt\<rparr> @
           concat sizes @ name_bytes @ passwd_bytes @ concat members_bytes)))))))
   | None \<Rightarrow> Ok (GrResponseHeader_as_slice t GrResponseHeader_default))"

definition serialize_initgroups :: "target \<Rightarrow> u32 list \<Rightarrow> (error, byte list) outcome" where
  "serialize_initgroups t groups =
     obind (i32_of_usize (length groups)) (\<lambda>ngrps.
     obind (omap (\<lambda>g. obind (i32_of_u32 g) (\<lambda>v. Ok (to_ne_bytes t v))) groups) (\<lambda>gids.
     Ok (InitgroupsResponseHeader_as_slice t
           \<lparr>ig_version = VERSION, ig_found = 1, ig_ngrps = ngrps\<rparr> @ concat gids)))"

text \<open>One turn of the loop over the addresses: count the family, append the octets.\<close>

definition hostent_addr ::
  "target \<Rightarrow> IpAddr \<Rightarrow> i32 \<times> i32 \<times> byte list \<Rightarrow> (error, i32 \<times> i32 \<times> byte list) outcome" where
  "hostent_addr t address = (\<lambda>(num_v4, num_v6, buf_addrs).
     case address of
       V4 octets \<Rightarrow> obind (add_i32 t num_v4 1) (\<lambda>n. Ok (n, num_v6, buf_addrs @ octets))
     | V6 octets \<Rightarrow> obind (add_i32 t num_v6 1) (\<lambda>n. Ok (num_v4, n, buf_addrs @ octets)))"

definition serialize_hostent :: "target \<Rightarrow> Hostent \<Rightarrow> (error, byte list) outcome" where
  "serialize_hostent t hostent =
     obind (ofold (hostent_addr t) (he_addr_list hostent) (0, 0, [])) (\<lambda>(num_v4, num_v6, buf_addrs).
     if num_v4 \<noteq> 0 \<and> num_v6 \<noteq> 0 then Err Mixed_AF
     else if he_addr_list hostent = [] then
       Ok (HstResponseHeader_as_slice t
             \<lparr>hst_version = VERSION, hst_found = 0, hst_name_len = 0, hst_aliases_cnt = 0,
              hst_addrtype = - 1, hst_length = - 1, hst_addr_list_cnt = 0,
              hst_error = he_herrno hostent\<rparr>)
     else
       let buf_aliases_size =
             concat (map (\<lambda>alias. to_ne_bytes t (usize_as_i32 (length (with_nul alias))))
               (he_aliases hostent));
           buf_aliases = concat (map with_nul (he_aliases hostent));
           hostname_bytes = with_nul (he_name hostent);
           header = \<lparr>hst_version = VERSION, hst_found = 1,
             hst_name_len = usize_as_i32 (length hostname_bytes),
             hst_aliases_cnt = usize_as_i32 (length (he_aliases hostent)),
             hst_addrtype = (if num_v4 \<noteq> 0 then tgt_AF_INET t else tgt_AF_INET6 t),
             hst_length = (if num_v4 \<noteq> 0 then 4 else 16),
             hst_addr_list_cnt = usize_as_i32 (length (he_addr_list hostent)),
             hst_error = he_herrno hostent\<rparr>;
           total_len = 32 + length hostname_bytes + length buf_addrs + length buf_aliases +
             length buf_aliases_size;
           buf = HstResponseHeader_as_slice t header @ hostname_bytes @ buf_aliases_size @
             buf_addrs @ buf_aliases
       in if tgt_debug t \<and> length buf \<noteq> total_len then Panic Assertion_Failed else Ok buf)"

definition ip_family_byte :: "target \<Rightarrow> IpAddr \<Rightarrow> byte" where
  "ip_family_byte t a = (case a of V4 _ \<Rightarrow> ucast (tgt_AF_INET t) | V6 _ \<Rightarrow> ucast (tgt_AF_INET6 t))"

definition serialize_address_info :: "target \<Rightarrow> AiResponse \<Rightarrow> (error, byte list) outcome" where
  "serialize_address_info t resp =
     (let b_families = map (ip_family_byte t) (ai_addrs resp);
          b_addrs = concat (map ip_octets (ai_addrs resp));
          addrslen = length b_addrs
      in if 0 < addrslen then
        obind (cstring_new (ai_canon_name resp)) (\<lambda>canon_name.
        let b_canon_name = with_nul canon_name in
        Ok (AiResponseHeader_as_slice t
              \<lparr>ai_version = VERSION, ai_found = 1, ai_naddrs = usize_as_i32 (length (ai_addrs resp)),
               ai_addrslen = usize_as_i32 addrslen, ai_canonlen = usize_as_i32 (length b_canon_name),
               ai_error = H_ERRNO_NETDB_SUCCESS\<rparr> @
            b_addrs @ b_families @ b_canon_name))
      else Ok (AiResponseHeader_as_slice t AI_RESPONSE_HEADER_NOT_FOUND))"

subsection \<open>What a client reads\<close>

text \<open>
  \<open>read_str\<close> takes a NUL-terminated string of an announced length, terminator included;
  \<open>read_strs\<close> a sequence of them; \<open>read_chunks\<close> a number of equally long octet strings.
\<close>

definition read_str :: "i32 \<Rightarrow> byte list \<Rightarrow> (byte list \<times> byte list) option" where
  "read_str len bs =
     (let n = unat len in
      if 0 < n \<and> n \<le> length bs \<and> bs ! (n - 1) = 0 then Some (take (n - 1) bs, drop n bs) else None)"

fun read_strs :: "i32 list \<Rightarrow> byte list \<Rightarrow> (byte list list \<times> byte list) option" where
  "read_strs [] bs = Some ([], bs)"
| "read_strs (l # ls) bs = (case read_str l bs of
     None \<Rightarrow> None
   | Some (s, bs') \<Rightarrow> (case read_strs ls bs' of None \<Rightarrow> None | Some (ss, r) \<Rightarrow> Some (s # ss, r)))"

fun read_chunks :: "nat \<Rightarrow> nat \<Rightarrow> byte list \<Rightarrow> (byte list list \<times> byte list) option" where
  "read_chunks w 0 bs = Some ([], bs)"
| "read_chunks w (Suc n) bs =
     (if length bs < w then None
      else case read_chunks w n (drop w bs) of
        None \<Rightarrow> None
      | Some (cs, r) \<Rightarrow> Some (take w bs # cs, r))"

abbreviation read_header ::
  "target \<Rightarrow> (32 word list \<Rightarrow> 'h) \<Rightarrow> nat \<Rightarrow> byte list \<Rightarrow> ('h \<times> byte list) option" where
  "read_header t build n \<equiv> peel (4 * n) (dec_words t build n)"

definition decode_user_reply :: "target \<Rightarrow> byte list \<Rightarrow> User option option" where
  "decode_user_reply t bs = (case read_header t PwResponseHeader_build 9 bs of
     None \<Rightarrow> None
   | Some (h, r) \<Rightarrow>
       if pw_found h = 0 then (if r = [] then Some None else None)
       else (case read_strs [pw_name_len h, pw_passwd_len h, pw_gecos_len h, pw_dir_len h, pw_shell_len h] r of
         Some ([name, passwd, gecos, dir, shell], []) \<Rightarrow>
           Some (Some \<lparr>u_name = name, u_passwd = passwd, u_uid = pw_uid h, u_gid = pw_gid h,
             u_gecos = gecos, u_dir = dir, u_shell = shell\<rparr>)
       | _ \<Rightarrow> None))"

definition decode_group_reply :: "target \<Rightarrow> byte list \<Rightarrow> Group option option" where
  "decode_group_reply t bs = (case read_header t GrResponseHeader_build 6 bs of
     None \<Rightarrow> None
   | Some (h, r) \<Rightarrow>
       if gr_found h = 0 then (if r = [] then Some None else None)
       else (case peels 4 (from_ne_bytes t) (unat (gr_mem_cnt h)) r of
         None \<Rightarrow> None
       | Some (sizes, r') \<Rightarrow>
           (case read_strs (gr_name_len h # gr_passwd_len h # sizes) r' of
              Some (name # passwd # members, []) \<Rightarrow>
                Some (Some \<lparr>g_name = name, g_passwd = passwd, g_gid = gr_gid h, g_mem = members\<rparr>)
            | _ \<Rightarrow> None)))"

definition decode_initgroups_reply :: "target \<Rightarrow> byte list \<Rightarrow> u32 list option" where
  "decode_initgroups_reply t bs = (case read_header t InitgroupsResponseHeader_build 3 bs of
     None \<Rightarrow> None
   | Some (h, r) \<Rightarrow> (case peels 4 (from_ne_bytes t) (unat (ig_ngrps h)) r of
       Some (gids, []) \<Rightarrow> Some gids
     | _ \<Rightarrow> None))"

datatype host_reply =
    Host_Not_Found i32
  | Host_Found "byte list" "byte list list" i32 "byte list list" i32

definition decode_host_reply :: "target \<Rightarrow> byte list \<Rightarrow> host_reply option" where
  "decode_host_reply t bs = (case read_header t HstResponseHeader_build 8 bs of
     None \<Rightarrow> None
   | Some (h, r) \<Rightarrow>
       if hst_found h = 0 then (if r = [] then Some (Host_Not_Found (hst_error h)) else None)
       else (case read_str (hst_name_len h) r of
         None \<Rightarrow> None
       | Some (name, r1) \<Rightarrow>
           (case peels 4 (from_ne_bytes t) (unat (hst_aliases_cnt h)) r1 of
              None \<Rightarrow> None
            | Some (sizes, r2) \<Rightarrow>
                (case read_chunks (unat (hst_length h)) (unat (hst_addr_list_cnt h)) r2 of
                   None \<Rightarrow> None
                 | Some (addrs, r3) \<Rightarrow>
                     (case read_strs sizes r3 of
                        Some (aliases, []) \<Rightarrow>
                          Some (Host_Found name aliases (hst_addrtype h) addrs (hst_error h))
                      | _ \<Rightarrow> None)))))"

text \<open>Addresses without padding: the family byte of each tells its width.\<close>

fun read_addrs :: "target \<Rightarrow> byte list \<Rightarrow> byte list \<Rightarrow> IpAddr list option" where
  "read_addrs t [] bs = (if bs = [] then Some [] else None)"
| "read_addrs t (f # fs) bs =
     (if f = ucast (tgt_AF_INET t)
      then if length bs < 4 then None else map_option (Cons (V4 (take 4 bs))) (read_addrs t fs (drop 4 bs))
      else if f = ucast (tgt_AF_INET6 t)
      then if length bs < 16 then None else map_option (Cons (V6 (take 16 bs))) (read_addrs t fs (drop 16 bs))
      else None)"

definition decode_ai_reply :: "target \<Rightarrow> byte list \<Rightarrow> AiResponse option option" where
  "decode_ai_reply t bs = (case read_header t AiResponseHeader_build 6 bs of
     None \<Rightarrow> None
   | Some (h, r) \<Rightarrow>
       if ai_found h = 0 then (if r = [] then Some None else None)
       else let addrslen = unat (ai_addrslen h); naddrs = unat (ai_naddrs h);
                addrs = take addrslen r; r1 = drop addrslen r;
                families = take naddrs r1; r2 = drop naddrs r1
            in (case (read_addrs t families addrs, read_str (ai_canonlen h) r2) of
                 (Some as, Some (name, [])) \<Rightarrow> Some (Some \<lparr>ai_addrs = as, ai_canon_name = name\<rparr>)
               | _ \<Rightarrow> None))"

section \<open>Lemmas of the serialisers\<close>

subsection \<open>Reading back what was written\<close>

lemma read_str_with_nul [simp, wire_simps]:
  "length s < i32_max \<Longrightarrow> read_str (of_nat (Suc (length s))) (with_nul s @ r) = Some (s, r)"
  by (subst read_str_def) (simp add: unat_of_nat_i32 with_nul_def nth_append del: of_nat_Suc)

lemma read_strs_with_nul:
  "\<forall>s \<in> set ss. length s < i32_max \<Longrightarrow>
   read_strs (map (\<lambda>s. of_nat (Suc (length s))) ss) (concat (map with_nul ss) @ r) = Some (ss, r)"
  by (induction ss) (simp_all del: of_nat_Suc)

lemma read_chunks_concat:
  "\<forall>c \<in> set cs. length c = w \<Longrightarrow> read_chunks w (length cs) (concat cs @ r) = Some (cs, r)"
  by (induction cs) simp_all

lemma peels_ne32 [simp, wire_simps]:
  "peels 4 (from_ne_bytes t) (length ws) (concat (map (to_ne_bytes t) ws) @ r) = Some (ws, r)"
  by (rule ne32.peels_enc)

lemma peels_ne32_end [simp, wire_simps]:
  "peels 4 (from_ne_bytes t) (length ws) (concat (map (to_ne_bytes t) ws)) = Some (ws, [])"
  using peels_ne32 [of t ws "[]"] by simp

lemma peel_header_end [simp, wire_simps]:
  "peel 36 (dec_words t PwResponseHeader_build 9) (PwResponseHeader_as_slice t pw) = Some (pw, [])"
  "peel 24 (dec_words t GrResponseHeader_build 6) (GrResponseHeader_as_slice t gr) = Some (gr, [])"
  "peel 24 (dec_words t AiResponseHeader_build 6) (AiResponseHeader_as_slice t ai) = Some (ai, [])"
  "peel 32 (dec_words t HstResponseHeader_build 8) (HstResponseHeader_as_slice t hst) = Some (hst, [])"
  using peel_header(1) [of t pw "[]"] peel_header(2) [of t gr "[]"] peel_header(4) [of t ai "[]"]
    peel_header(5) [of t hst "[]"] by simp_all

lemma omap_to_ne_bytes:
  assumes "omap (\<lambda>x. obind (f x) (\<lambda>v. Ok (to_ne_bytes t v))) xs = Ok bss"
  shows "\<exists>vs. bss = map (to_ne_bytes t) vs \<and> list_all2 (\<lambda>x v. f x = Ok v) xs vs"
  using assms
proof (induction xs arbitrary: bss)
  case Nil
  then show ?case by simp
next
  case (Cons x xs)
  then obtain v bss' where "f x = Ok v" "bss = to_ne_bytes t v # bss'"
    "omap (\<lambda>x. obind (f x) (\<lambda>v. Ok (to_ne_bytes t v))) xs = Ok bss'"
    by (auto simp: obind_eq_Ok)
  moreover from this obtain vs where "bss' = map (to_ne_bytes t) vs" "list_all2 (\<lambda>x v. f x = Ok v) xs vs"
    using Cons.IH by blast
  ultimately show ?case by (auto intro!: exI [of _ "v # vs"])
qed

lemma list_all2_fun: "list_all2 (\<lambda>x v. P x \<and> v = g x) xs vs \<longleftrightarrow> (\<forall>x \<in> set xs. P x) \<and> vs = map g xs"
  by (induction xs arbitrary: vs) (auto simp: list_all2_Cons1)

lemma omap_cstring_new_eq_Ok: "omap cstring_new xs = Ok ys \<longleftrightarrow> ys = xs \<and> list_all cstring_ok xs"
  by (auto simp: omap_eq_Ok_iff cstring_new_eq_Ok list_all2_fun [where g = "\<lambda>x. x"] list_all_iff)

lemma returns_Let: "returns (let x = e in f x) \<longleftrightarrow> returns (f e)"
  by (simp add: Let_def)

subsection \<open>Users, groups and group lists\<close>

text \<open>What fits the wire: strings without NUL whose terminated length fits an \<open>i32\<close>.\<close>

definition wire_string :: "byte list \<Rightarrow> bool" where
  "wire_string s \<longleftrightarrow> cstring_ok s \<and> length s < i32_max"

definition user_fits :: "User \<Rightarrow> bool" where
  "user_fits u \<longleftrightarrow> wire_string (u_name u) \<and> wire_string (u_dir u) \<and> wire_string (u_shell u) \<and>
     length (u_passwd u) < i32_max \<and> length (u_gecos u) < i32_max"

definition group_fits :: "Group \<Rightarrow> bool" where
  "group_fits g \<longleftrightarrow> wire_string (g_name g) \<and> length (g_passwd g) < i32_max \<and>
     length (g_mem g) \<le> i32_max \<and> list_all wire_string (g_mem g)"

lemma returns_serialize_user: "returns (serialize_user t u)"
  by (auto simp: serialize_user_def returns_obind returns_Let split: option.split)

lemma returns_serialize_group: "returns (serialize_group t g)"
  by (auto simp: serialize_group_def returns_obind returns_Let intro!: returns_omap split: option.split)

lemma returns_serialize_initgroups: "returns (serialize_initgroups t gs)"
  by (auto simp: serialize_initgroups_def returns_obind intro!: returns_omap)

lemma serialize_user_fits:
  "user_fits u \<Longrightarrow> serialize_user t (Some u) = Ok (PwResponseHeader_as_slice t
     \<lparr>pw_version = VERSION, pw_found = 1, pw_name_len = of_nat (Suc (length (u_name u))),
      pw_passwd_len = of_nat (Suc (length (u_passwd u))), pw_uid = u_uid u, pw_gid = u_gid u,
      pw_gecos_len = of_nat (Suc (length (u_gecos u))), pw_dir_len = of_nat (Suc (length (u_dir u))),
      pw_shell_len = of_nat (Suc (length (u_shell u)))\<rparr> @
     concat (map with_nul [u_name u, u_passwd u, u_gecos u, u_dir u, u_shell u]))"
  by (simp add: serialize_user_def user_fits_def wire_string_def cstring_new_def i32_of_usize_def
      Let_def del: of_nat_Suc)

lemma serialize_user_eq_Ok: "serialize_user t (Some u) = Ok bs \<Longrightarrow> user_fits u"
  by (auto simp: serialize_user_def user_fits_def wire_string_def obind_eq_Ok cstring_new_eq_Ok
      i32_of_usize_eq_Ok Let_def)

lemma decode_serialize_user: "user_fits u \<Longrightarrow>
    \<exists>bs. serialize_user t (Some u) = Ok bs \<and> decode_user_reply t bs = Some (Some u)"
  using read_strs_with_nul [of "[u_name u, u_passwd u, u_gecos u, u_dir u, u_shell u]" "[]"]
  by (simp add: serialize_user_fits decode_user_reply_def user_fits_def wire_string_def
      del: of_nat_Suc read_strs.simps)

lemma serialize_group_fits:
  "group_fits g \<Longrightarrow> serialize_group t (Some g) = Ok (GrResponseHeader_as_slice t
     \<lparr>gr_version = VERSION, gr_found = 1, gr_name_len = of_nat (Suc (length (g_name g))),
      gr_passwd_len = of_nat (Suc (length (g_passwd g))), gr_gid = g_gid g,
      gr_mem_cnt = of_nat (length (g_mem g))\<rparr> @
     concat (map (to_ne_bytes t) (map (\<lambda>s. of_nat (Suc (length s))) (g_mem g))) @
     concat (map with_nul (g_name g # g_passwd g # g_mem g)))"
proof -
  assume fits: "group_fits g"
  then have "omap cstring_new (g_mem g) = Ok (g_mem g)"
    by (auto simp: omap_cstring_new_eq_Ok group_fits_def wire_string_def list_all_iff)
  moreover have "omap (\<lambda>m. obind (i32_of_usize (length m)) (\<lambda>l. Ok (to_ne_bytes t l))) (map with_nul (g_mem g)) =
      Ok (map (\<lambda>m. to_ne_bytes t (of_nat (length m))) (map with_nul (g_mem g)))"
    using fits by (intro omap_Ok_map) (auto simp: group_fits_def wire_string_def list_all_iff i32_of_usize_def)
  ultimately show ?thesis using fits
    by (simp add: serialize_group_def group_fits_def wire_string_def cstring_new_def i32_of_usize_def
        Let_def comp_def del: of_nat_Suc)
qed

lemma serialize_group_eq_Ok: "serialize_group t (Some g) = Ok bs \<Longrightarrow> group_fits g"
  by (auto simp: serialize_group_def group_fits_def wire_string_def obind_eq_Ok cstring_new_eq_Ok
      i32_of_usize_eq_Ok omap_cstring_new_eq_Ok omap_eq_Ok_iff list_all2_map1 list_all2_conv_all_nth
      list_all_length Let_def Suc_le_eq)

lemma decode_serialize_group: "group_fits g \<Longrightarrow>
    \<exists>bs. serialize_group t (Some g) = Ok bs \<and> decode_group_reply t bs = Some (Some g)"
proof -
  assume fits: "group_fits g"
  then have strs: "read_strs (map (\<lambda>s. of_nat (Suc (length s))) (g_name g # g_passwd g # g_mem g))
      (concat (map with_nul (g_name g # g_passwd g # g_mem g)) @ []) =
      Some (g_name g # g_passwd g # g_mem g, [])"
    by (intro read_strs_with_nul) (auto simp: group_fits_def wire_string_def list_all_iff)
  have sizes: "peels 4 (from_ne_bytes t) (length (g_mem g))
      (concat (map (to_ne_bytes t) (map (\<lambda>s. of_nat (Suc (length s))) (g_mem g))) @ r) =
      Some (map (\<lambda>s. of_nat (Suc (length s))) (g_mem g), r)" for r
    using peels_ne32 [of t "map (\<lambda>s. of_nat (Suc (length s))) (g_mem g)" r] by simp
  show ?thesis
    using fits strs sizes
    by (simp add: serialize_group_fits decode_group_reply_def group_fits_def unat_of_nat_i32
        del: of_nat_Suc read_strs.simps map_map)
qed

lemma serialize_initgroups_eq_Ok:
  "serialize_initgroups t gs = Ok bs \<longleftrightarrow>
     length gs \<le> i32_max \<and> (\<forall>g \<in> set gs. unat g \<le> i32_max) \<and>
     bs = InitgroupsResponseHeader_as_slice t
       \<lparr>ig_version = VERSION, ig_found = 1, ig_ngrps = of_nat (length gs)\<rparr> @
       concat (map (to_ne_bytes t) gs)"
proof -
  have "omap (\<lambda>g. obind (i32_of_u32 g) (\<lambda>v. Ok (to_ne_bytes t v))) gs = Ok bss \<longleftrightarrow>
      (\<forall>g \<in> set gs. unat g \<le> i32_max) \<and> bss = map (to_ne_bytes t) gs" for bss
    by (auto simp: omap_eq_Ok_iff obind_eq_Ok i32_of_u32_eq_Ok simp flip: list_all2_fun elim!: list_all2_mono)
  then show ?thesis
    by (auto simp: serialize_initgroups_def obind_eq_Ok i32_of_usize_eq_Ok)
qed

lemma decode_serialize_initgroups:
  "serialize_initgroups t gs = Ok bs \<Longrightarrow> decode_initgroups_reply t bs = Some gs"
  by (auto simp: serialize_initgroups_eq_Ok decode_initgroups_reply_def unat_of_nat_i32)

subsection \<open>Host entries\<close>

definition is_v4 :: "IpAddr \<Rightarrow> bool" where
  "is_v4 a = (case a of V4 _ \<Rightarrow> True | V6 _ \<Rightarrow> False)"

lemma add_i32_of_nat:
  "Suc n \<le> i32_max \<Longrightarrow> add_i32 t (of_nat n) 1 = Ok (of_nat (Suc n))"
proof -
  assume n: "Suc n \<le> i32_max"
  have "(of_nat n + 1 :: i32) = of_nat (Suc n)" by simp
  with n show ?thesis
    using sint_of_nat_i32 [of "Suc n"] sint_of_nat_i32 [of n]
    by (simp add: add_i32_def del: of_nat_Suc)
qed

lemma hostent_addr_loop:
  "a + length (filter is_v4 as) \<le> i32_max \<Longrightarrow> b + length (filter (\<lambda>x. \<not> is_v4 x) as) \<le> i32_max \<Longrightarrow>
   ofold (hostent_addr t) as (of_nat a, of_nat b, buf) =
     Ok (of_nat (a + length (filter is_v4 as)), of_nat (b + length (filter (\<lambda>x. \<not> is_v4 x) as)),
         buf @ concat (map ip_octets as))"
proof (induction "as" arbitrary: a b buf)
  case Nil
  then show ?case by simp
next
  case (Cons x "as")
  show ?case
  proof (cases x)
    case (V4 bs)
    with Cons.prems Cons.IH [of "Suc a" b "buf @ bs"] show ?thesis
      by (simp add: hostent_addr_def is_v4_def ip_octets_def add_i32_of_nat del: of_nat_Suc of_nat_add)
  next
    case (V6 bs)
    with Cons.prems Cons.IH [of a "Suc b" "buf @ bs"] show ?thesis
      by (simp add: hostent_addr_def is_v4_def ip_octets_def add_i32_of_nat del: of_nat_Suc of_nat_add)
  qed
qed

lemma of_nat_i32_eq_0: "n \<le> i32_max \<Longrightarrow> (of_nat n :: i32) = 0 \<longleftrightarrow> n = 0"
  using unat_of_nat_i32 [of n] by auto

text \<open>The entry a reply describes, and the entries whose counts and lengths fit the wire.\<close>

definition host_reply_of :: "Hostent \<Rightarrow> host_reply" where
  "host_reply_of h =
     (if he_addr_list h = [] then Host_Not_Found (he_herrno h)
      else Host_Found (he_name h) (he_aliases h) (he_addr_type h) (map ip_octets (he_addr_list h))
        (he_herrno h))"

definition host_fits :: "target \<Rightarrow> Hostent \<Rightarrow> bool" where
  "host_fits t h \<longleftrightarrow> length (he_name h) < i32_max \<and> length (he_aliases h) \<le> i32_max \<and>
     (\<forall>a \<in> set (he_aliases h). length a < i32_max) \<and> length (he_addr_list h) \<le> i32_max \<and>
     (he_addr_list h \<noteq> [] \<longrightarrow> he_addr_type h \<in> {tgt_AF_INET t, tgt_AF_INET6 t}) \<and>
     (\<forall>a \<in> set (he_addr_list h). ip_of_family t (he_addr_type h) a)"

definition found_host_header :: "target \<Rightarrow> Hostent \<Rightarrow> HstResponseHeader" where
  "found_host_header t h = \<lparr>hst_version = VERSION, hst_found = 1,
     hst_name_len = of_nat (Suc (length (he_name h))), hst_aliases_cnt = of_nat (length (he_aliases h)),
     hst_addrtype = he_addr_type h,
     hst_length = (if he_addr_type h = tgt_AF_INET t then 4 else 16),
     hst_addr_list_cnt = of_nat (length (he_addr_list h)), hst_error = he_herrno h\<rparr>"

lemma serialize_hostent_loop:
  "length (he_addr_list h) \<le> i32_max \<Longrightarrow>
   ofold (hostent_addr t) (he_addr_list h) (0, 0, []) =
     Ok (of_nat (length (filter is_v4 (he_addr_list h))),
         of_nat (length (filter (\<lambda>x. \<not> is_v4 x) (he_addr_list h))),
         concat (map ip_octets (he_addr_list h)))"
  using hostent_addr_loop [of 0 "he_addr_list h" 0 t "[]"]
    length_filter_le [of is_v4 "he_addr_list h"] length_filter_le [of "\<lambda>x. \<not> is_v4 x" "he_addr_list h"]
  by simp

lemma serialize_hostent_empty:
  "he_addr_list h = [] \<Longrightarrow> serialize_hostent t h = Ok (HstResponseHeader_as_slice t
     \<lparr>hst_version = VERSION, hst_found = 0, hst_name_len = 0, hst_aliases_cnt = 0,
      hst_addrtype = - 1, hst_length = - 1, hst_addr_list_cnt = 0, hst_error = he_herrno h\<rparr>)"
  by (simp add: serialize_hostent_def)

lemma ip_of_family_is_v4: "ip_of_family t af a \<Longrightarrow> is_v4 a \<longleftrightarrow> af = tgt_AF_INET t"
  by (auto simp: ip_of_family_def is_v4_def split: IpAddr.splits)

lemma serialize_hostent_found:
  assumes fits: "host_fits t h" and ne: "he_addr_list h \<noteq> []"
  shows "serialize_hostent t h = Ok (HstResponseHeader_as_slice t (found_host_header t h) @
    with_nul (he_name h) @
    concat (map (to_ne_bytes t) (map (\<lambda>s. of_nat (Suc (length s))) (he_aliases h))) @
    concat (map ip_octets (he_addr_list h)) @ concat (map with_nul (he_aliases h)))"
proof -
  let ?v4 = "he_addr_type h = tgt_AF_INET t"
  have len: "length (he_addr_list h) \<le> i32_max" "0 < length (he_addr_list h)"
    using fits ne by (auto simp: host_fits_def)
  have family: "\<forall>a \<in> set (he_addr_list h). is_v4 a \<longleftrightarrow> ?v4"
    using fits ip_of_family_is_v4 by (auto simp: host_fits_def)
  then have v4: "filter is_v4 (he_addr_list h) = (if ?v4 then he_addr_list h else [])"
    and v6: "filter (\<lambda>x. \<not> is_v4 x) (he_addr_list h) = (if ?v4 then [] else he_addr_list h)"
    by auto
  have "?v4 \<or> he_addr_type h = tgt_AF_INET6 t" using fits ne by (auto simp: host_fits_def)
  then show ?thesis
    using len of_nat_i32_eq_0 [OF len(1)] unfolding serialize_hostent_def
    by (subst serialize_hostent_loop)
      (auto simp: v4 v6 found_host_header_def usize_as_i32_def Let_def comp_def simp del: of_nat_Suc)
qed

lemma decode_serialize_hostent:
  assumes "host_fits t h"
  shows "\<exists>bs. serialize_hostent t h = Ok bs \<and> decode_host_reply t bs = Some (host_reply_of h)"
proof (cases "he_addr_list h = []")
  case True
  then show ?thesis
    by (simp add: serialize_hostent_empty decode_host_reply_def host_reply_of_def)
next
  case False
  let ?sizes = "map (\<lambda>s. of_nat (Suc (length s))) (he_aliases h)"
  let ?w = "unat (hst_length (found_host_header t h))"
  have name: "length (he_name h) < i32_max" using assms by (simp add: host_fits_def)
  have counts: "unat (of_nat (length (he_aliases h)) :: i32) = length (he_aliases h)"
    "unat (of_nat (length (he_addr_list h)) :: i32) = length (he_addr_list h)"
    using assms by (auto simp: host_fits_def unat_of_nat_i32)
  have sizes: "peels 4 (from_ne_bytes t) (length (he_aliases h)) (concat (map (to_ne_bytes t) ?sizes) @ r) =
      Some (?sizes, r)" for r
    using peels_ne32 [of t ?sizes r] by simp
  have "\<forall>c \<in> set (map ip_octets (he_addr_list h)). length c = ?w"
    using assms False by (auto simp: host_fits_def ip_of_family_def ip_octets_def found_host_header_def
        split: IpAddr.splits)
  then have chunks: "read_chunks ?w (length (he_addr_list h)) (concat (map ip_octets (he_addr_list h)) @ r) =
      Some (map ip_octets (he_addr_list h), r)" for r
    using read_chunks_concat [of "map ip_octets (he_addr_list h)" ?w r] by simp
  have strs: "read_strs ?sizes (concat (map with_nul (he_aliases h))) = Some (he_aliases h, [])"
    using read_strs_with_nul [of "he_aliases h" "[]"] assms by (simp add: host_fits_def)
  show ?thesis
    using False name counts sizes chunks strs
    by (simp add: serialize_hostent_found [OF assms False] decode_host_reply_def host_reply_of_def
        found_host_header_def del: of_nat_Suc map_map)
qed

lemma serialize_hostent_mixed:
  assumes "length (he_addr_list h) \<le> i32_max"
    and "\<exists>a \<in> set (he_addr_list h). is_v4 a" "\<exists>a \<in> set (he_addr_list h). \<not> is_v4 a"
  shows "serialize_hostent t h = Err Mixed_AF"
proof -
  have "filter is_v4 (he_addr_list h) \<noteq> []" "filter (\<lambda>x. \<not> is_v4 x) (he_addr_list h) \<noteq> []"
    using assms by (auto simp: filter_empty_conv)
  moreover have "length (filter P (he_addr_list h)) \<le> i32_max" for P
    by (rule le_trans [OF length_filter_le assms(1)])
  ultimately show ?thesis
    using of_nat_i32_eq_0 unfolding serialize_hostent_def
    by (subst serialize_hostent_loop) (simp_all add: assms(1))
qed

lemma wf_hostent_fits:
  "wf_hostent t h \<Longrightarrow> length (he_name h) < i32_max \<Longrightarrow> length (he_aliases h) \<le> i32_max \<Longrightarrow>
   \<forall>a \<in> set (he_aliases h). length a < i32_max \<Longrightarrow> length (he_addr_list h) \<le> i32_max \<Longrightarrow> host_fits t h"
  by (auto simp: wf_hostent_def host_fits_def list_all_iff)

subsection \<open>Address information\<close>

text \<open>Every address has the octets of its Rust type.\<close>

definition ip_ok :: "IpAddr \<Rightarrow> bool" where
  "ip_ok a = (case a of V4 bs \<Rightarrow> length bs = 4 | V6 bs \<Rightarrow> length bs = 16)"

definition ai_fits :: "AiResponse \<Rightarrow> bool" where
  "ai_fits r \<longleftrightarrow> (\<forall>a \<in> set (ai_addrs r). ip_ok a) \<and>
     length (concat (map ip_octets (ai_addrs r))) \<le> i32_max \<and>
     wire_string (ai_canon_name r)"

lemma read_addrs_concat:
  assumes "ucast (tgt_AF_INET t) \<noteq> (ucast (tgt_AF_INET6 t) :: byte)" "\<forall>a \<in> set as. ip_ok a"
  shows "read_addrs t (map (ip_family_byte t) as) (concat (map ip_octets as)) = Some as"
  using assms(2)
proof (induction "as")
  case (Cons a "as")
  then show ?case using assms(1)
    by (cases a) (auto simp: ip_family_byte_def ip_octets_def ip_ok_def)
qed simp

lemma ip_ok_octets: "ip_ok a \<Longrightarrow> 0 < length (ip_octets a) \<and> length (ip_octets a) \<le> 16"
  by (auto simp: ip_ok_def ip_octets_def split: IpAddr.splits)

lemma length_ip_octets: "\<forall>a \<in> set as. ip_ok a \<Longrightarrow> length as \<le> length (concat (map ip_octets as))"
proof (induction "as")
  case (Cons a "as")
  then have "0 < length (ip_octets a)" using ip_ok_octets by (simp del: length_greater_0_conv)
  with Cons show ?case by (simp del: length_greater_0_conv)
qed simp

lemma decode_serialize_address_info:
  assumes "ucast (tgt_AF_INET t) \<noteq> (ucast (tgt_AF_INET6 t) :: byte)" "ai_fits r"
  shows "\<exists>bs. serialize_address_info t r = Ok bs \<and>
    decode_ai_reply t bs = Some (if ai_addrs r = [] then None else Some r)"
proof (cases "ai_addrs r = []")
  case True
  then show ?thesis
    by (simp add: serialize_address_info_def decode_ai_reply_def AI_RESPONSE_HEADER_NOT_FOUND_def)
next
  case False
  let ?octets = "concat (map ip_octets (ai_addrs r))"
  have ok: "\<forall>a \<in> set (ai_addrs r). ip_ok a" using assms by (simp add: ai_fits_def)
  have pos: "0 < length ?octets"
    using False ok ip_ok_octets by (cases "ai_addrs r") auto
  have len: "length ?octets \<le> i32_max" "length (ai_addrs r) \<le> i32_max"
    using assms length_ip_octets [OF ok] unfolding ai_fits_def by linarith+
  have name: "read_str (of_nat (Suc (length (ai_canon_name r)))) (with_nul (ai_canon_name r)) =
      Some (ai_canon_name r, [])"
    using read_str_with_nul [of "ai_canon_name r" "[]"] assms by (simp add: ai_fits_def wire_string_def)
  show ?thesis
    using False pos assms read_addrs_concat [OF assms(1) ok] name
      unat_of_nat_i32 [OF len(1)] unat_of_nat_i32 [OF len(2)]
    by (simp add: serialize_address_info_def decode_ai_reply_def usize_as_i32_def cstring_new_def
        ai_fits_def wire_string_def Let_def del: of_nat_Suc length_concat)
qed

subsection \<open>The contract of a serialiser\<close>

text \<open>
  What the request handler relies on: a value that fits is serialised to a reply the client decodes
  to the client's view of the value, and no reply is empty.  A strict serialiser refuses every other
  value with an error.
\<close>

locale reply_codec =
  fixes ser :: "'x \<Rightarrow> (error, byte list) outcome"
    and dec :: "byte list \<Rightarrow> 'y option"
    and view :: "'x \<Rightarrow> 'y"
    and fits :: "'x \<Rightarrow> bool"
  assumes roundtrip: "fits x \<Longrightarrow> \<exists>bs. ser x = Ok bs \<and> dec bs = Some (view x)"
    and not_empty: "ser x = Ok bs \<Longrightarrow> bs \<noteq> []"
begin

lemma lookup_reply:
  assumes "lookup = Inr x" "fits x"
  shows "\<exists>bs. obind (from_sum e lookup) ser = Ok bs \<and> dec bs = Some (view x)"
  using assms roundtrip by simp

lemma lookup_not_empty: "obind (from_sum e lookup) ser = Ok bs \<Longrightarrow> bs \<noteq> []"
  by (auto simp: obind_eq_Ok dest: not_empty)

end

locale strict_reply_codec = reply_codec +
  assumes unfit: "\<not> fits x \<Longrightarrow> \<exists>e. ser x = Err e"
begin

lemma ser_returns: "returns (ser x)"
  using roundtrip [of x] unfit [of x] by (cases "fits x") auto

lemma ser_eq_Ok: "ser x = Ok bs \<Longrightarrow> fits x \<and> dec bs = Some (view x)"
  using roundtrip [of x] unfit [of x] by (cases "fits x") auto

lemma lookup_returns: "returns (obind (from_sum e lookup) ser)"
  by (simp add: returns_obind ser_returns)

end

fun option_fits :: "('x \<Rightarrow> bool) \<Rightarrow> 'x option \<Rightarrow> bool" where
  "option_fits fits None \<longleftrightarrow> True"
| "option_fits fits (Some x) \<longleftrightarrow> fits x"

definition groups_fit :: "u32 list \<Rightarrow> bool" where
  "groups_fit gs \<longleftrightarrow> length gs \<le> i32_max \<and> (\<forall>g \<in> set gs. unat g \<le> i32_max)"

lemma not_empty_as_slice:
  "PwResponseHeader_as_slice t pw \<noteq> []"
  "GrResponseHeader_as_slice t gr \<noteq> []"
  "InitgroupsResponseHeader_as_slice t ig \<noteq> []"
  "AiResponseHeader_as_slice t ai \<noteq> []"
  "HstResponseHeader_as_slice t hst \<noteq> []"
  by (auto simp flip: length_0_conv)

interpretation user_reply: strict_reply_codec "serialize_user t" "decode_user_reply t" "\<lambda>u. u"
  "option_fits user_fits" for t
proof
  show "\<exists>bs. serialize_user t u = Ok bs \<and> decode_user_reply t bs = Some u" if "option_fits user_fits u" for u
    using that decode_serialize_user [of _ t]
    by (cases u) (auto simp: serialize_user_def decode_user_reply_def PwResponseHeader_default_def)
  show "bs \<noteq> []" if "serialize_user t u = Ok bs" for u bs
    using that by (auto simp: serialize_user_def obind_eq_Ok Let_def not_empty_as_slice split: option.splits)
  show "\<exists>e. serialize_user t u = Err e" if "\<not> option_fits user_fits u" for u
    using that returns_serialize_user [of t u] serialize_user_eq_Ok [of t]
    by (cases u) (auto simp: returns_iff)
qed

interpretation group_reply: strict_reply_codec "serialize_group t" "decode_group_reply t" "\<lambda>g. g"
  "option_fits group_fits" for t
proof
  show "\<exists>bs. serialize_group t g = Ok bs \<and> decode_group_reply t bs = Some g" if "option_fits group_fits g" for g
    using that decode_serialize_group [of _ t]
    by (cases g) (auto simp: serialize_group_def decode_group_reply_def GrResponseHeader_default_def)
  show "bs \<noteq> []" if "serialize_group t g = Ok bs" for g bs
    using that by (auto simp: serialize_group_def obind_eq_Ok Let_def not_empty_as_slice split: option.splits)
  show "\<exists>e. serialize_group t g = Err e" if "\<not> option_fits group_fits g" for g
    using that returns_serialize_group [of t g] serialize_group_eq_Ok [of t]
    by (cases g) (auto simp: returns_iff)
qed

interpretation initgroups_reply: strict_reply_codec "serialize_initgroups t" "decode_initgroups_reply t"
  "\<lambda>gs. gs" groups_fit for t
proof
  show "\<exists>bs. serialize_initgroups t gs = Ok bs \<and> decode_initgroups_reply t bs = Some gs"
    if "groups_fit gs" for gs
    using that decode_serialize_initgroups [of t gs] by (auto simp: serialize_initgroups_eq_Ok groups_fit_def)
  show "bs \<noteq> []" if "serialize_initgroups t gs = Ok bs" for gs bs
    using that by (auto simp: serialize_initgroups_eq_Ok not_empty_as_slice)
  show "\<exists>e. serialize_initgroups t gs = Err e" if "\<not> groups_fit gs" for gs
    using that returns_serialize_initgroups [of t gs]
    by (auto simp: returns_iff serialize_initgroups_eq_Ok groups_fit_def)
qed

interpretation host_reply: reply_codec "serialize_hostent t" "decode_host_reply t" host_reply_of
  "host_fits t" for t
proof
  show "\<exists>bs. serialize_hostent t h = Ok bs \<and> decode_host_reply t bs = Some (host_reply_of h)"
    if "host_fits t h" for h
    using that by (rule decode_serialize_hostent)
  show "bs \<noteq> []" if "serialize_hostent t h = Ok bs" for h bs
    using that by (auto simp: serialize_hostent_def obind_eq_Ok Let_def not_empty_as_slice
        split: if_splits prod.splits)
qed

text \<open>\<open>getaddrinfo\<close> replies, on targets whose two address families differ in their low byte.\<close>

definition ai_view :: "AiResponse \<Rightarrow> AiResponse option" where
  "ai_view r = (if ai_addrs r = [] then None else Some r)"

definition families_differ :: "target \<Rightarrow> bool" where
  "families_differ t \<longleftrightarrow> ucast (tgt_AF_INET t) \<noteq> (ucast (tgt_AF_INET6 t) :: byte)"

interpretation ai_reply: reply_codec "serialize_address_info t" "decode_ai_reply t" ai_view
  "\<lambda>r. families_differ t \<and> ai_fits r" for t
proof
  show "\<exists>bs. serialize_address_info t r = Ok bs \<and> decode_ai_reply t bs = Some (ai_view r)"
    if "families_differ t \<and> ai_fits r" for r
    using that decode_serialize_address_info [of t r] by (simp add: families_differ_def ai_view_def)
  show "bs \<noteq> []" if "serialize_address_info t r = Ok bs" for r bs
    using that by (auto simp: serialize_address_info_def obind_eq_Ok Let_def not_empty_as_slice
        split: if_splits)
qed

subsection \<open>Replies of limited length\<close>

text \<open>
  The serialisers of hosts and addresses convert counts and lengths without a check, but a reply of
  at most \<open>i32::MAX\<close> bytes cannot contain one that does not fit.
\<close>

lemma hostent_addr_octets:
  "hostent_addr t x (a, b, buf) = Ok (a', b', buf') \<Longrightarrow> buf' = buf @ ip_octets x"
  by (cases x) (auto simp: hostent_addr_def ip_octets_def obind_eq_Ok)

lemma hostent_addr_loop_octets:
  "ofold (hostent_addr t) as (a, b, buf) = Ok (a', b', buf') \<Longrightarrow> buf' = buf @ concat (map ip_octets as)"
proof (induction "as" arbitrary: a b buf)
  case (Cons x "as")
  then obtain a1 b1 buf1 where "hostent_addr t x (a, b, buf) = Ok (a1, b1, buf1)"
    "ofold (hostent_addr t) as (a1, b1, buf1) = Ok (a', b', buf')"
    by (auto simp: obind_eq_Ok)
  with Cons.IH hostent_addr_octets [of t x] show ?case by fastforce
qed simp

lemma serialize_hostent_length:
  assumes "serialize_hostent t h = Ok bs" "he_addr_list h \<noteq> []"
  shows "length bs = 33 + length (he_name h) + 4 * length (he_aliases h) +
    length (concat (map ip_octets (he_addr_list h))) + length (concat (map with_nul (he_aliases h)))"
proof -
  have sizes: "length (concat (map (\<lambda>alias. to_ne_bytes t (f alias)) xs)) = 4 * length xs" for f :: "byte list \<Rightarrow> i32" and xs
    by (induction xs) simp_all
  show ?thesis
    using assms sizes
    by (auto simp: serialize_hostent_def obind_eq_Ok Let_def with_nul_def simp del: length_concat
        dest!: hostent_addr_loop_octets split: if_splits)
qed

lemma length_le_concat_with_nul: "s \<in> set ss \<Longrightarrow> length s < length (concat (map with_nul ss))"
  by (induction ss) (auto simp: with_nul_def)

lemma wf_hostent_octets:
  assumes "wf_hostent t h"
  shows "length (he_addr_list h) \<le> length (concat (map ip_octets (he_addr_list h)))"
  using assms
  by (intro length_ip_octets) (auto simp: wf_hostent_def list_all_iff ip_of_family_def ip_ok_def split: IpAddr.splits)

lemma short_host_reply:
  assumes "wf_hostent t h" "serialize_hostent t h = Ok bs" "length bs \<le> i32_max"
  shows "decode_host_reply t bs = Some (host_reply_of h)"
proof (cases "he_addr_list h = []")
  case True
  then show ?thesis using assms(2) by (auto simp: serialize_hostent_empty decode_host_reply_def host_reply_of_def)
next
  case False
  note len = serialize_hostent_length [OF assms(2) False]
  have "host_fits t h"
  proof (rule wf_hostent_fits [OF assms(1)])
    show "\<forall>a \<in> set (he_aliases h). length a < i32_max"
      using len assms(3) length_le_concat_with_nul [of _ "he_aliases h"] by force
  qed (use len assms(3) wf_hostent_octets [OF assms(1)] in linarith)+
  then show ?thesis using host_reply.roundtrip assms(2) by fastforce
qed

lemma short_ai_reply:
  assumes "families_differ t" "\<forall>a \<in> set (ai_addrs r). ip_ok a"
    and "serialize_address_info t r = Ok bs" "length bs \<le> i32_max"
  shows "decode_ai_reply t bs = Some (ai_view r)"
proof (cases "ai_addrs r = []")
  case True
  then show ?thesis using assms(3)
    by (auto simp: serialize_address_info_def decode_ai_reply_def AI_RESPONSE_HEADER_NOT_FOUND_def ai_view_def)
next
  case False
  then have "0 < length (ai_addrs r)" by simp
  then have "0 < length (concat (map ip_octets (ai_addrs r)))"
    using length_ip_octets [OF assms(2)] by (rule less_le_trans)
  with assms(2-4) have "ai_fits r"
    by (auto simp: serialize_address_info_def ai_fits_def wire_string_def obind_eq_Ok cstring_new_eq_Ok Let_def
        with_nul_def simp del: length_concat)
  then show ?thesis using ai_reply.roundtrip [of t r] assms(1,3) by auto
qed

lemma mixed_not_wf:
  assumes "V4 a \<in> set (he_addr_list h)" "V6 b \<in> set (he_addr_list h)"
  shows "\<not> wf_hostent t h"
proof
  assume "wf_hostent t h"
  with assms have "ip_of_family t (he_addr_type h) (V4 a)" "ip_of_family t (he_addr_type h) (V6 b)"
    by (simp_all add: wf_hostent_def list_all_iff)
  then show False by (simp add: ip_of_family_def)
qed

subsection \<open>The version field\<close>

lemma take_as_slice:
  "take 4 (PwResponseHeader_as_slice t pw) = to_ne_bytes t (pw_version pw)"
  "take 4 (GrResponseHeader_as_slice t gr) = to_ne_bytes t (gr_version gr)"
  "take 4 (InitgroupsResponseHeader_as_slice t ig) = to_ne_bytes t (ig_version ig)"
  "take 4 (AiResponseHeader_as_slice t ai) = to_ne_bytes t (ai_version ai)"
  "take 4 (HstResponseHeader_as_slice t hst) = to_ne_bytes t (hst_version hst)"
  by (simp_all add: PwResponseHeader_as_slice_def GrResponseHeader_as_slice_def
      InitgroupsResponseHeader_as_slice_def AiResponseHeader_as_slice_def HstResponseHeader_as_slice_def)

lemma found_reply_version:
  "serialize_user t (Some u) = Ok bs \<Longrightarrow> take 4 bs = to_ne_bytes t VERSION"
  "serialize_group t (Some g) = Ok bs \<Longrightarrow> take 4 bs = to_ne_bytes t VERSION"
  by (auto simp: serialize_user_def serialize_group_def obind_eq_Ok Let_def take_as_slice)

lemma missing_reply_zero:
  "serialize_user t None = Ok (replicate 36 0)" "serialize_group t None = Ok (replicate 24 0)"
proof -
  have "to_ne_bytes t 0 = [0, 0, 0, 0]"
    by (simp add: to_ne_bytes_def to_le_bytes_def split: endian.split)
  then show "serialize_user t None = Ok (replicate 36 0)" "serialize_group t None = Ok (replicate 24 0)"
    by (simp_all add: serialize_user_def serialize_group_def PwResponseHeader_as_slice_def
        PwResponseHeader_default_def GrResponseHeader_as_slice_def GrResponseHeader_default_def numeral_eq_Suc)
qed

lemma user_reply_version:
  assumes "serialize_user t u = Ok bs"
  shows "if decode_user_reply t bs = Some None then bs = replicate 36 0 else take 4 bs = to_ne_bytes t VERSION"
  using assms user_reply.ser_eq_Ok [OF assms] missing_reply_zero(1) [of t]
  by (cases u) (auto simp: found_reply_version)

lemma group_reply_version:
  assumes "serialize_group t g = Ok bs"
  shows "if decode_group_reply t bs = Some None then bs = replicate 24 0 else take 4 bs = to_ne_bytes t VERSION"
  using assms group_reply.ser_eq_Ok [OF assms] missing_reply_zero(2) [of t]
  by (cases g) (auto simp: found_reply_version)

lemma list_reply_version:
  "serialize_initgroups t gs = Ok bs \<Longrightarrow> take 4 bs = to_ne_bytes t VERSION"
  "serialize_address_info t r = Ok bs \<Longrightarrow> take 4 bs = to_ne_bytes t VERSION"
  "serialize_hostent t h = Ok bs \<Longrightarrow> take 4 bs = to_ne_bytes t VERSION"
  by (auto simp: serialize_initgroups_def serialize_address_info_def serialize_hostent_def obind_eq_Ok Let_def
      take_as_slice AI_RESPONSE_HEADER_NOT_FOUND_def split: if_splits)

section \<open>Properties of the serialisers\<close>

text \<open>
  C30. Users, groups and group lists round-trip.  A user or group whose strings and counts fit the wire
  is serialised to a reply from which a client reads back exactly that entry, with the members of a
  group in order; its absence is read back as such.  A list of group ids round-trips exactly when
  every id and the number of ids are at most \<open>i32::MAX\<close>: a single id of \<open>2^31\<close> or more makes the whole
  reply an error, although such ids are valid values of \<open>gid_t\<close>.  Whatever does not fit gives an error,
  never a panic or a truncated reply.
\<close>

theorem account_replies_roundtrip:
  "(if option_fits user_fits u
    then \<exists>bs. serialize_user t u = Ok bs \<and> decode_user_reply t bs = Some u
    else \<exists>e. serialize_user t u = Err e) \<and>
   (if option_fits group_fits g
    then \<exists>bs. serialize_group t g = Ok bs \<and> decode_group_reply t bs = Some g
    else \<exists>e. serialize_group t g = Err e) \<and>
   (if length gs \<le> i32_max \<and> (\<forall>gid \<in> set gs. unat gid \<le> i32_max)
    then \<exists>bs. serialize_initgroups t gs = Ok bs \<and> decode_initgroups_reply t bs = Some gs
    else \<exists>e. serialize_initgroups t gs = Err e)"
  using user_reply.roundtrip [of u t] user_reply.unfit [of u t] group_reply.roundtrip [of g t]
    group_reply.unfit [of g t] initgroups_reply.roundtrip [of gs t] initgroups_reply.unfit [of gs t]
  by (auto simp: groups_fit_def)

theorem account_replies_roundtrip_witness:
  "\<exists>bs. serialize_initgroups linux_release [0, 100001] = Ok bs \<and>
     decode_initgroups_reply linux_release bs = Some [0, 100001]"
  using account_replies_roundtrip [of None linux_release None "[0, 100001]"] by simp

text \<open>
  C31. A host entry of one address family whose counts and lengths fit an \<open>i32\<close> is serialised to a
  reply from which a client reads back its name, aliases, family, addresses and error; an entry
  without addresses is read back as a failed lookup with its error code.  The length assertion of
  debug builds holds.
\<close>

theorem serialize_hostent_roundtrip:
  assumes "host_fits t h"
  shows "\<exists>bs. serialize_hostent t h = Ok bs \<and> decode_host_reply t bs = Some (host_reply_of h)"
  using assms by (rule host_reply.roundtrip)

definition trantor :: Hostent where
  "trantor = \<lparr>he_name = [116, 114], he_aliases = [[116]], he_addr_type = 10,
     he_addr_list = [V6 [0, 0, 0, 0, 0, 0, 0, 0, 0, 0, 0, 0, 0, 0, 0, 1]], he_herrno = 0\<rparr>"

theorem serialize_hostent_roundtrip_witness:
  "\<exists>bs. serialize_hostent linux_debug trantor = Ok bs \<and>
     decode_host_reply linux_debug bs =
       Some (Host_Found [116, 114] [[116]] 10 [[0, 0, 0, 0, 0, 0, 0, 0, 0, 0, 0, 0, 0, 0, 0, 1]] 0)"
proof -
  have "host_fits linux_debug trantor"
    by (simp add: host_fits_def trantor_def ip_of_family_def linux_debug_def linux_release_def)
  moreover have "host_reply_of trantor =
      Host_Found [116, 114] [[116]] 10 [[0, 0, 0, 0, 0, 0, 0, 0, 0, 0, 0, 0, 0, 0, 0, 1]] 0"
    by (simp add: host_reply_of_def trantor_def ip_octets_def)
  ultimately show ?thesis using serialize_hostent_roundtrip by metis
qed

text \<open>
  C33. An entry with both IPv4 and IPv6 addresses is refused with the error "unable to serialize
  mixed AF".  It takes a caller other than the request handler to see that error: whatever the C
  library returns, \<open>from_libc_hostent\<close>, \<open>gethostbyaddr_r\<close> and \<open>gethostbyname2_r\<close> never give such an entry.
\<close>

theorem serialize_hostent_mixed_families:
  assumes "length (he_addr_list h) \<le> i32_max"
    and "V4 a \<in> set (he_addr_list h)" "V6 b \<in> set (he_addr_list h)"
  shows "serialize_hostent t h = Err Mixed_AF \<and> (\<forall>m v. from_libc_hostent t m v \<noteq> Ok h) \<and>
    (\<forall>glibc addr. gethostbyaddr_r t glibc addr \<noteq> Ok h) \<and>
    (\<forall>glibc name af. gethostbyname2_r t glibc name af \<noteq> Ok h)"
proof -
  have "serialize_hostent t h = Err Mixed_AF"
    using assms by (intro serialize_hostent_mixed) (auto simp: is_v4_def intro: bexI [rotated])
  moreover have "\<not> wf_hostent t h" by (rule mixed_not_wf [OF assms(2,3)])
  ultimately show ?thesis
    using from_libc_hostent_wf gethostbyaddr_r_wf gethostbyname2_r_wf by blast
qed

theorem serialize_hostent_mixed_families_witness:
  "serialize_hostent linux_release \<lparr>he_name = [104], he_aliases = [], he_addr_type = 2,
     he_addr_list = [V4 [127, 0, 0, 1], V6 (replicate 15 0 @ [1])], he_herrno = 0\<rparr> = Err Mixed_AF \<and>
   (\<forall>glibc. gethostbyaddr_r linux_release glibc (LibcIp_V4 [127, 0, 0, 1]) \<noteq> Ok \<lparr>he_name = [104],
     he_aliases = [], he_addr_type = 2, he_addr_list = [V4 [127, 0, 0, 1], V6 (replicate 15 0 @ [1])], he_herrno = 0\<rparr>)"
  using serialize_hostent_mixed_families [of "\<lparr>he_name = [104], he_aliases = [], he_addr_type = 2,
     he_addr_list = [V4 [127, 0, 0, 1], V6 (replicate 15 0 @ [1])], he_herrno = 0\<rparr>"
     "[127, 0, 0, 1]" "replicate 15 0 @ [1]" linux_release] by simp

text \<open>
  C32. An address-information response that fits the wire is read back with its addresses, of both
  families and in order, and its canonical name; without addresses the client reads "not found".
\<close>

theorem serialize_address_info_roundtrip:
  assumes "families_differ t" "ai_fits r"
  shows "\<exists>bs. serialize_address_info t r = Ok bs \<and>
    decode_ai_reply t bs = Some (if ai_addrs r = [] then None else Some r)"
  using assms ai_reply.roundtrip [of t r] by (simp add: ai_view_def)

theorem serialize_address_info_roundtrip_witness:
  "\<exists>bs. serialize_address_info linux_release
      \<lparr>ai_addrs = [V4 [127, 0, 0, 1]], ai_canon_name = [104]\<rparr> = Ok bs \<and>
    decode_ai_reply linux_release bs = Some (Some \<lparr>ai_addrs = [V4 [127, 0, 0, 1]], ai_canon_name = [104]\<rparr>)"
  using serialize_address_info_roundtrip
    [of linux_release "\<lparr>ai_addrs = [V4 [127, 0, 0, 1]], ai_canon_name = [104]\<rparr>"]
  by (simp add: families_differ_def linux_release_def ai_fits_def ip_octets_def ip_ok_def wire_string_def cstring_ok_def)

end
