(* ===== verification/Handlers.thy ===== *)
theory Handlers
  imports Config Serialize
begin

section \<open>Handling a request\<close>

text \<open>
  Model of \<open>handle_request\<close> of \<open>src/handlers.rs\<close>.  The libraries it calls are the fields of a
  record: \<open>atoi\<close>, the user and group lookups of \<open>nix\<close>, \<open>dns_lookup::getaddrinfo\<close> and the two glibc
  host lookups.  Every request type has its branch, with the early returns of \<open>?\<close> and \<open>bail!\<close>.
\<close>

subsection \<open>The libraries\<close>

text \<open>One element of a \<open>getaddrinfo\<close> result: its canonical name, if any, and its address.\<close>

record AddrInfo =
  ai_canonname :: "byte list option"
  ai_sockaddr_ip :: IpAddr

record AddrInfoHints =
  hint_flags :: i32
  hint_socktype :: i32
  hint_address :: i32
  hint_protocol :: i32

record libs =
  lib_from_i32 :: from_i32
  lib_atoi :: "byte list \<Rightarrow> u32 option"
  lib_user_from_uid :: "u32 \<Rightarrow> int + User option"
  lib_user_from_name :: "byte list \<Rightarrow> int + User option"
  lib_group_from_gid :: "u32 \<Rightarrow> int + Group option"
  lib_group_from_name :: "byte list \<Rightarrow> int + Group option"
  lib_getgrouplist :: "byte list \<Rightarrow> u32 \<Rightarrow> int + u32 list"
  lib_getaddrinfo :: "byte list \<Rightarrow> AddrInfoHints \<Rightarrow> int + (int + AddrInfo) list"
  lib_gethostbyaddr_r :: "byte list \<Rightarrow> nat \<Rightarrow> i32 \<Rightarrow> gethost_call"
  lib_gethostbyname2_r :: "byte list \<Rightarrow> i32 \<Rightarrow> gethost_call"

subsection \<open>The handler\<close>

text \<open>
  \<open>resp.filter_map(|e| e.ok())\<close>, then the canonical name of the first element, or the host name of
  the request, and the addresses of all of them.
\<close>

definition ai_response_of :: "byte list \<Rightarrow> (int + AddrInfo) list \<Rightarrow> AiResponse" where
  "ai_response_of hostname infos =
     (let oks = List.map_filter (\<lambda>e. case e of Inl _ \<Rightarrow> None | Inr a \<Rightarrow> Some a) infos
      in \<lparr>ai_addrs = map ai_sockaddr_ip oks,
          ai_canon_name = (case oks of
             [] \<Rightarrow> hostname
           | a # _ \<Rightarrow> (case ai_canonname a of None \<Rightarrow> hostname | Some n \<Rightarrow> n))\<rparr>)"

text \<open>
  The \<open>match\<close> on the result of a host lookup: a herror becomes an entry that carries it, any other
  failure ends the request.
\<close>

fun hostent_or_bail :: "error \<Rightarrow> (HostentError, Hostent) outcome \<Rightarrow> (error, Hostent) outcome" where
  "hostent_or_bail e (Ok hostent) = Ok hostent"
| "hostent_or_bail e (Err (HError herror)) = Ok (Hostent_error_value herror)"
| "hostent_or_bail e (Err (Other _)) = Err e"
| "hostent_or_bail e (Panic p) = Panic p"
| "hostent_or_bail e Undefined = Undefined"
| "hostent_or_bail e Diverge = Diverge"

text \<open>
  The arms of \<open>match request.ty\<close> that do a lookup, one definition each.  The first five read a
  NUL-terminated string from the key; \<open>?\<close> ends the request with the error of the step that failed.
\<close>

definition handle_GETPWBYUID :: "target \<Rightarrow> libs \<Rightarrow> byte list \<Rightarrow> (error, byte list) outcome" where
  "handle_GETPWBYUID t lib request_key =
     obind (from_bytes_with_nul request_key) (\<lambda>key.
     obind (ok_or (lib_atoi lib key) Invalid_Uid_String) (\<lambda>uid.
     obind (from_sum Errno (lib_user_from_uid lib uid)) (\<lambda>user.
     serialize_user t user)))"

definition handle_GETPWBYNAME :: "target \<Rightarrow> libs \<Rightarrow> byte list \<Rightarrow> (error, byte list) outcome" where
  "handle_GETPWBYNAME t lib request_key =
     obind (from_bytes_with_nul request_key) (\<lambda>key.
     obind (to_str key) (\<lambda>name.
     obind (from_sum Errno (lib_user_from_name lib name)) (\<lambda>user.
     serialize_user t user)))"

definition handle_GETGRBYGID :: "target \<Rightarrow> libs \<Rightarrow> byte list \<Rightarrow> (error, byte list) outcome" where
  "handle_GETGRBYGID t lib request_key =
     obind (from_bytes_with_nul request_key) (\<lambda>key.
     obind (ok_or (lib_atoi lib key) Invalid_Gid_String) (\<lambda>gid.
     obind (from_sum Errno (lib_group_from_gid lib gid)) (\<lambda>grp.
     serialize_group t grp)))"

definition handle_GETGRBYNAME :: "target \<Rightarrow> libs \<Rightarrow> byte list \<Rightarrow> (error, byte list) outcome" where
  "handle_GETGRBYNAME t lib request_key =
     obind (from_bytes_with_nul request_key) (\<lambda>key.
     obind (to_str key) (\<lambda>name.
     obind (from_sum Errno (lib_group_from_name lib name)) (\<lambda>grp.
     serialize_group t grp)))"

definition handle_INITGROUPS :: "target \<Rightarrow> libs \<Rightarrow> byte list \<Rightarrow> (error, byte list) outcome" where
  "handle_INITGROUPS t lib request_key =
     obind (from_bytes_with_nul request_key) (\<lambda>key.
     obind (to_str key) (\<lambda>name.
     obind (from_sum Errno (lib_user_from_name lib name)) (\<lambda>user.
     let groups = (case user of
           Some u \<Rightarrow> (case lib_getgrouplist lib key (u_gid u) of Inl _ \<Rightarrow> [] | Inr gs \<Rightarrow> gs)
         | None \<Rightarrow> [])
     in serialize_initgroups t groups)))"

definition handle_GETAI :: "target \<Rightarrow> libs \<Rightarrow> byte list \<Rightarrow> (error, byte list) outcome" where
  "handle_GETAI t lib request_key =
     obind (from_bytes_with_nul request_key) (\<lambda>key.
     obind (to_str key) (\<lambda>hostname.
     let hints = \<lparr>hint_flags = tgt_AI_CANONNAME t, hint_socktype = tgt_SOCK_STREAM t,
                  hint_address = 0, hint_protocol = 0\<rparr>;
         ai_resp = (case lib_getaddrinfo lib hostname hints of
           Inr infos \<Rightarrow> ai_response_of hostname infos
         | Inl _ \<Rightarrow> \<lparr>ai_addrs = [], ai_canon_name = hostname\<rparr>)
     in serialize_address_info t ai_resp))"

definition handle_GETHOSTBYADDR :: "target \<Rightarrow> libs \<Rightarrow> byte list \<Rightarrow> (error, byte list) outcome" where
  "handle_GETHOSTBYADDR t lib key =
     (if length key \<noteq> 4 then Err (Invalid_Key_Len (length key) 4)
      else obind (hostent_or_bail Unexpected_Gethostbyaddr
          (gethostbyaddr_r t (lib_gethostbyaddr_r lib) (LibcIp_V4 key)))
        (serialize_hostent t))"

definition handle_GETHOSTBYADDRv6 :: "target \<Rightarrow> libs \<Rightarrow> byte list \<Rightarrow> (error, byte list) outcome" where
  "handle_GETHOSTBYADDRv6 t lib key =
     (if length key \<noteq> 16 then Err (Invalid_Key_Len (length key) 16)
      else obind (hostent_or_bail Unexpected_Gethostbyaddrv6
          (gethostbyaddr_r t (lib_gethostbyaddr_r lib) (LibcIp_V6 key)))
        (serialize_hostent t))"

definition handle_GETHOSTBYNAME :: "target \<Rightarrow> libs \<Rightarrow> byte list \<Rightarrow> (error, byte list) outcome" where
  "handle_GETHOSTBYNAME t lib request_key =
     obind (from_bytes_with_nul request_key) (\<lambda>key.
     obind (to_str key) (\<lambda>hostname.
     obind (hostent_or_bail Unexpected_Gethostbyname
         (gethostbyname2_r t (lib_gethostbyname2_r lib) hostname (tgt_AF_INET t)))
       (serialize_hostent t)))"

definition handle_GETHOSTBYNAMEv6 :: "target \<Rightarrow> libs \<Rightarrow> byte list \<Rightarrow> (error, byte list) outcome" where
  "handle_GETHOSTBYNAMEv6 t lib request_key =
     obind (from_bytes_with_nul request_key) (\<lambda>key.
     obind (to_str key) (\<lambda>hostname.
     obind (hostent_or_bail Unexpected_Gethostbynamev6
         (gethostbyname2_r t (lib_gethostbyname2_r lib) hostname (tgt_AF_INET6 t)))
       (serialize_hostent t)))"

text \<open>The other arms log and answer with nothing: there is no cache, and no client stops the daemon.\<close>

definition handle_request :: "target \<Rightarrow> libs \<Rightarrow> Config \<Rightarrow> Request \<Rightarrow> (error, byte list) outcome" where
  "handle_request t lib config request =
     obind (should_ignore config (req_ty request)) (\<lambda>ignore.
     if ignore then Ok []
     else case req_ty request of
       GETPWBYUID \<Rightarrow> handle_GETPWBYUID t lib (req_key request)
     | GETPWBYNAME \<Rightarrow> handle_GETPWBYNAME t lib (req_key request)
     | GETGRBYGID \<Rightarrow> handle_GETGRBYGID t lib (req_key request)
     | GETGRBYNAME \<Rightarrow> handle_GETGRBYNAME t lib (req_key request)
     | INITGROUPS \<Rightarrow> handle_INITGROUPS t lib (req_key request)
     | INVALIDATE \<Rightarrow> Ok []
     | SHUTDOWN \<Rightarrow> Ok []
     | GETAI \<Rightarrow> handle_GETAI t lib (req_key request)
     | GETHOSTBYADDR \<Rightarrow> handle_GETHOSTBYADDR t lib (req_key request)
     | GETHOSTBYADDRv6 \<Rightarrow> handle_GETHOSTBYADDRv6 t lib (req_key request)
     | GETHOSTBYNAME \<Rightarrow> handle_GETHOSTBYNAME t lib (req_key request)
     | GETHOSTBYNAMEv6 \<Rightarrow> handle_GETHOSTBYNAMEv6 t lib (req_key request)
     | GETFDPW \<Rightarrow> Ok []
     | GETFDGR \<Rightarrow> Ok []
     | GETFDHST \<Rightarrow> Ok []
     | GETFDSERV \<Rightarrow> Ok []
     | GETFDNETGR \<Rightarrow> Ok []
     | GETSTAT \<Rightarrow> Ok []
     | GETSERVBYNAME \<Rightarrow> Ok []
     | GETSERVBYPORT \<Rightarrow> Ok []
     | GETNETGRENT \<Rightarrow> Ok []
     | INNETGR \<Rightarrow> Ok []
     | LASTREQ \<Rightarrow> Ok [])"

lemmas arm_defs = handle_GETPWBYUID_def handle_GETPWBYNAME_def handle_GETGRBYGID_def
  handle_GETGRBYNAME_def handle_INITGROUPS_def handle_GETAI_def handle_GETHOSTBYADDR_def
  handle_GETHOSTBYADDRv6_def handle_GETHOSTBYNAME_def handle_GETHOSTBYNAMEv6_def

lemmas handle_defs = handle_request_def arm_defs

section \<open>Lemmas of the handler\<close>

text \<open>The request types the program answers; the others, and ignored ones, get an empty reply.\<close>

definition host_types :: "RequestType set" where
  "host_types = {GETHOSTBYADDR, GETHOSTBYADDRv6, GETHOSTBYNAME, GETHOSTBYNAMEv6}"

definition answered :: "RequestType set" where
  "answered = {GETPWBYUID, GETPWBYNAME, GETGRBYGID, GETGRBYNAME, INITGROUPS, GETAI} \<union> host_types"

abbreviation config_ok :: "Config \<Rightarrow> bool" where
  "config_ok cfg \<equiv> set_ok (ignored_request_types cfg)"

abbreviation ignores :: "Config \<Rightarrow> RequestType \<Rightarrow> bool" where
  "ignores cfg ty \<equiv> ty \<in> set_members (ignored_request_types cfg)"

lemma handle_ignored:
  "config_ok cfg \<Longrightarrow> ignores cfg (req_ty r) \<Longrightarrow> handle_request t lib cfg r = Ok []"
  by (simp add: handle_defs should_ignore_members)

lemma handle_unanswered:
  "config_ok cfg \<Longrightarrow> req_ty r \<notin> answered \<Longrightarrow> handle_request t lib cfg r = Ok []"
  by (cases "req_ty r") (simp_all add: handle_defs should_ignore_members answered_def host_types_def)

text \<open>The branches, one equation each.\<close>

lemma handle_branches:
  assumes "config_ok cfg" "\<not> ignores cfg ty"
  shows
    "ty = GETPWBYUID \<Longrightarrow> handle_request t lib cfg \<lparr>req_ty = ty, req_key = k\<rparr> =
       obind (from_bytes_with_nul k) (\<lambda>key. obind (ok_or (lib_atoi lib key) Invalid_Uid_String) (\<lambda>uid.
       obind (from_sum Errno (lib_user_from_uid lib uid)) (serialize_user t)))"
    "ty = GETPWBYNAME \<Longrightarrow> handle_request t lib cfg \<lparr>req_ty = ty, req_key = k\<rparr> =
       obind (from_bytes_with_nul k) (\<lambda>key. obind (to_str key) (\<lambda>name.
       obind (from_sum Errno (lib_user_from_name lib name)) (serialize_user t)))"
    "ty = GETGRBYGID \<Longrightarrow> handle_request t lib cfg \<lparr>req_ty = ty, req_key = k\<rparr> =
       obind (from_bytes_with_nul k) (\<lambda>key. obind (ok_or (lib_atoi lib key) Invalid_Gid_String) (\<lambda>gid.
       obind (from_sum Errno (lib_group_from_gid lib gid)) (serialize_group t)))"
    "ty = GETGRBYNAME \<Longrightarrow> handle_request t lib cfg \<lparr>req_ty = ty, req_key = k\<rparr> =
       obind (from_bytes_with_nul k) (\<lambda>key. obind (to_str key) (\<lambda>name.
       obind (from_sum Errno (lib_group_from_name lib name)) (serialize_group t)))"
  using assms by (simp_all add: handle_defs should_ignore_members)

lemma serialize_address_info_returns: "returns (serialize_address_info t r)"
  by (simp add: serialize_address_info_def Let_def returns_obind)

lemma handle_not_empty:
  assumes "config_ok cfg" "\<not> ignores cfg (req_ty r)" "req_ty r \<in> answered"
    and "handle_request t lib cfg r = Ok bs"
  shows "bs \<noteq> []"
  using assms unfolding answered_def host_types_def
  by (auto simp: handle_defs should_ignore_members obind_eq_Ok Let_def split: if_splits
      dest: user_reply.not_empty group_reply.not_empty initgroups_reply.not_empty ai_reply.not_empty
        host_reply.not_empty)

lemma handle_returns:
  assumes "config_ok cfg" "req_ty r \<notin> host_types"
  shows "returns (handle_request t lib cfg r)"
  using assms
  by (cases "req_ty r")
    (simp_all add: handle_defs should_ignore_members returns_obind host_types_def Let_def
      user_reply.ser_returns group_reply.ser_returns initgroups_reply.ser_returns
      serialize_address_info_returns)

text \<open>What a client decodes for a request type, and what the type of an address promises of its octets.\<close>

definition reply_decodes :: "target \<Rightarrow> RequestType \<Rightarrow> byte list \<Rightarrow> bool" where
  "reply_decodes t ty bs \<longleftrightarrow>
     (if ty \<in> {GETPWBYUID, GETPWBYNAME} then decode_user_reply t bs \<noteq> None
      else if ty \<in> {GETGRBYGID, GETGRBYNAME} then decode_group_reply t bs \<noteq> None
      else if ty = INITGROUPS then decode_initgroups_reply t bs \<noteq> None
      else if ty = GETAI then decode_ai_reply t bs \<noteq> None
      else ty \<in> host_types \<and> decode_host_reply t bs \<noteq> None)"

definition addresses_typed :: "libs \<Rightarrow> bool" where
  "addresses_typed lib \<longleftrightarrow> (\<forall>name hints infos a. lib_getaddrinfo lib name hints = Inr infos \<longrightarrow>
     Inr a \<in> set infos \<longrightarrow> ip_ok (ai_sockaddr_ip a))"

lemma hostent_or_bail_eq_Ok:
  "hostent_or_bail e x = Ok h \<longleftrightarrow> x = Ok h \<or> (\<exists>n. x = Err (HError n) \<and> h = Hostent_error_value n)"
  by (induction e x rule: hostent_or_bail.induct) auto

lemma host_arm_decodes:
  assumes "obind (hostent_or_bail e x) (serialize_hostent t) = Ok bs" "\<And>h. x = Ok h \<Longrightarrow> wf_hostent t h"
    and "length bs \<le> i32_max"
  shows "\<exists>v. decode_host_reply t bs = Some v"
proof -
  obtain h where h: "hostent_or_bail e x = Ok h" "serialize_hostent t h = Ok bs"
    using assms(1) by (auto simp: obind_eq_Ok)
  show ?thesis
  proof (cases "he_addr_list h = []")
    case True
    then show ?thesis using h(2) by (auto simp: serialize_hostent_empty decode_host_reply_def)
  next
    case False
    then have "x = Ok h" using h(1) by (auto simp: hostent_or_bail_eq_Ok Hostent_error_value_def)
    with short_host_reply [OF assms(2) h(2) assms(3)] show ?thesis by blast
  qed
qed

lemma map_filter_oks:
  "List.map_filter (\<lambda>e. case e of Inl _ \<Rightarrow> None | Inr a \<Rightarrow> Some a) infos = [a. Inr a \<leftarrow> infos]"
  by (induction infos) (auto simp: map_filter_simps split: sum.split)

lemma ai_response_typed:
  assumes "\<forall>a. Inr a \<in> set infos \<longrightarrow> ip_ok (ai_sockaddr_ip a)"
  shows "\<forall>ip \<in> set (ai_addrs (ai_response_of name infos)). ip_ok ip"
  using assms by (auto simp: ai_response_of_def Let_def map_filter_def split: sum.splits)

lemma account_arm_decodes:
  "handle_GETPWBYUID t lib k = Ok bs \<Longrightarrow> \<exists>v. decode_user_reply t bs = Some v"
  "handle_GETPWBYNAME t lib k = Ok bs \<Longrightarrow> \<exists>v. decode_user_reply t bs = Some v"
  "handle_GETGRBYGID t lib k = Ok bs \<Longrightarrow> \<exists>v. decode_group_reply t bs = Some v"
  "handle_GETGRBYNAME t lib k = Ok bs \<Longrightarrow> \<exists>v. decode_group_reply t bs = Some v"
  "handle_INITGROUPS t lib k = Ok bs \<Longrightarrow> \<exists>v. decode_initgroups_reply t bs = Some v"
  unfolding arm_defs
  by (auto simp: obind_eq_Ok Let_def
      dest: user_reply.ser_eq_Ok group_reply.ser_eq_Ok initgroups_reply.ser_eq_Ok)

lemma arm_version:
  "handle_GETPWBYUID t lib k = Ok bs \<Longrightarrow> decode_user_reply t bs = Some None \<Longrightarrow> bs = replicate 36 0"
  "handle_GETPWBYUID t lib k = Ok bs \<Longrightarrow> decode_user_reply t bs \<noteq> Some None \<Longrightarrow> take 4 bs = to_ne_bytes t VERSION"
  "handle_GETPWBYNAME t lib k = Ok bs \<Longrightarrow> decode_user_reply t bs = Some None \<Longrightarrow> bs = replicate 36 0"
  "handle_GETPWBYNAME t lib k = Ok bs \<Longrightarrow> decode_user_reply t bs \<noteq> Some None \<Longrightarrow> take 4 bs = to_ne_bytes t VERSION"
  "handle_GETGRBYGID t lib k = Ok bs \<Longrightarrow> decode_group_reply t bs = Some None \<Longrightarrow> bs = replicate 24 0"
  "handle_GETGRBYGID t lib k = Ok bs \<Longrightarrow> decode_group_reply t bs \<noteq> Some None \<Longrightarrow> take 4 bs = to_ne_bytes t VERSION"
  "handle_GETGRBYNAME t lib k = Ok bs \<Longrightarrow> decode_group_reply t bs = Some None \<Longrightarrow> bs = replicate 24 0"
  "handle_GETGRBYNAME t lib k = Ok bs \<Longrightarrow> decode_group_reply t bs \<noteq> Some None \<Longrightarrow> take 4 bs = to_ne_bytes t VERSION"
  "handle_INITGROUPS t lib k = Ok bs \<Longrightarrow> take 4 bs = to_ne_bytes t VERSION"
  "handle_GETAI t lib k = Ok bs \<Longrightarrow> take 4 bs = to_ne_bytes t VERSION"
  "handle_GETHOSTBYADDR t lib k = Ok bs \<Longrightarrow> take 4 bs = to_ne_bytes t VERSION"
  "handle_GETHOSTBYADDRv6 t lib k = Ok bs \<Longrightarrow> take 4 bs = to_ne_bytes t VERSION"
  "handle_GETHOSTBYNAME t lib k = Ok bs \<Longrightarrow> take 4 bs = to_ne_bytes t VERSION"
  "handle_GETHOSTBYNAMEv6 t lib k = Ok bs \<Longrightarrow> take 4 bs = to_ne_bytes t VERSION"
  unfolding arm_defs
  by (auto simp: obind_eq_Ok Let_def split: if_splits
      dest: user_reply_version group_reply_version list_reply_version)

lemma getai_arm_decodes:
  assumes "handle_GETAI t lib k = Ok bs" "families_differ t" "addresses_typed lib" "length bs \<le> i32_max"
  shows "\<exists>v. decode_ai_reply t bs = Some v"
proof -
  obtain name hints r where r: "serialize_address_info t r = Ok bs"
    "r = (case lib_getaddrinfo lib name hints of
       Inr infos \<Rightarrow> ai_response_of name infos | Inl _ \<Rightarrow> \<lparr>ai_addrs = [], ai_canon_name = name\<rparr>)"
    using assms(1) unfolding handle_GETAI_def obind_eq_Ok Let_def by blast
  have "\<forall>ip \<in> set (ai_addrs r). ip_ok ip"
  proof (cases "lib_getaddrinfo lib name hints")
    case (Inr infos)
    then have "\<forall>a. Inr a \<in> set infos \<longrightarrow> ip_ok (ai_sockaddr_ip a)"
      using assms(3) unfolding addresses_typed_def by blast
    with r(2) Inr show ?thesis using ai_response_typed by simp
  qed (simp add: r(2))
  with r(1) short_ai_reply [OF assms(2) _ _ assms(4)] show ?thesis by blast
qed

lemma lookup_arm_decodes:
  assumes "length bs \<le> i32_max"
  shows "handle_GETHOSTBYADDR t lib k = Ok bs \<Longrightarrow> \<exists>v. decode_host_reply t bs = Some v"
    "handle_GETHOSTBYADDRv6 t lib k = Ok bs \<Longrightarrow> \<exists>v. decode_host_reply t bs = Some v"
    "handle_GETHOSTBYNAME t lib k = Ok bs \<Longrightarrow> \<exists>v. decode_host_reply t bs = Some v"
    "handle_GETHOSTBYNAMEv6 t lib k = Ok bs \<Longrightarrow> \<exists>v. decode_host_reply t bs = Some v"
  unfolding arm_defs obind_eq_Ok [of "from_bytes_with_nul k"] obind_eq_Ok [of "to_str x" for x]
  using assms by (auto intro: host_arm_decodes gethostbyaddr_r_wf gethostbyname2_r_wf split: if_splits)

text \<open>Host lookups: no panic without overflow checks, if glibc does not ask for more forever.\<close>

definition glibc_settles :: "target \<Rightarrow> libs \<Rightarrow> bool" where
  "glibc_settles t lib \<longleftrightarrow> (\<forall>name af. \<exists>j \<le> 52.
     fst (attempt (lib_gethostbyname2_r lib name af) j ffi_init) \<noteq> tgt_ERANGE t)"

lemma no_panic_hostent_or_bail: "no_panic x \<Longrightarrow> no_panic (hostent_or_bail e x)"
  by (induction e x rule: hostent_or_bail.induct) simp_all

lemma no_panic_gethostbyname2_r:
  assumes "cstring_ok name" "\<exists>j \<le> 52. fst (attempt (glibc name af) j ffi_init) \<noteq> tgt_ERANGE t"
  shows "no_panic (gethostbyname2_r t glibc name af)"
proof -
  obtain st where "gethostbyname2_loop t (glibc name af) 1024 ffi_init = Some (Ok st)"
    using gethostbyname2_loop_first [of "glibc name af" ffi_init t] assms(2) by (auto split: if_splits)
  with assms(1) show ?thesis by (simp add: gethostbyname2_r_def)
qed

lemma ofold_hostent_addr_release:
  "\<not> tgt_debug t \<Longrightarrow> \<exists>r. ofold (hostent_addr t) as s = Ok r"
proof (induction "as" arbitrary: s)
  case Nil
  then show ?case by (cases s) simp
next
  case (Cons a "as")
  have "\<exists>s'. hostent_addr t a s = Ok s'"
    using Cons.prems by (cases s; cases a) (simp_all add: hostent_addr_def add_i32_def)
  with Cons show ?case by auto
qed

lemma returns_serialize_hostent_release: "\<not> tgt_debug t \<Longrightarrow> returns (serialize_hostent t h)"
  using ofold_hostent_addr_release [of t "he_addr_list h" "(0, 0, [])"]
  by (auto simp: serialize_hostent_def Let_def split: prod.split)

lemma no_panic_returns: "returns x \<Longrightarrow> no_panic x"
  by (cases x) simp_all

lemma no_panic_strings [simp]:
  "no_panic (from_bytes_with_nul bs)"
  "no_panic (to_str bs)"
  by (simp_all add: no_panic_returns)

lemma no_panic_serialize_hostent: "\<not> tgt_debug t \<Longrightarrow> no_panic (serialize_hostent t h)"
  by (intro no_panic_returns returns_serialize_hostent_release)

lemmas no_panic_intros = no_panic_obind no_panic_hostent_or_bail no_panic_gethostbyaddr_r
  no_panic_gethostbyname2_r no_panic_serialize_hostent

lemma handle_no_panic:
  assumes "config_ok cfg" "\<not> tgt_debug t" "glibc_settles t lib"
  shows "no_panic (handle_request t lib cfg r)"
proof (cases "req_ty r \<in> host_types \<and> \<not> ignores cfg (req_ty r)")
  case True
  then show ?thesis
    using assms unfolding host_types_def glibc_settles_def
    by (auto simp: handle_defs should_ignore_members from_bytes_with_nul_eq_Ok to_str_eq_Ok
        intro!: no_panic_intros)
next
  case False
  then show ?thesis
    using assms handle_returns [of cfg r t lib] handle_ignored [of cfg r t lib]
    by (auto intro: no_panic_returns)
qed

subsection \<open>A user lookup\<close>

lemma handle_getpwbyname:
  assumes "config_ok cfg" "\<not> ignores cfg GETPWBYNAME" "cstring_ok name" "is_utf8 name"
    and "lib_user_from_name lib name = Inr user" "option_fits user_fits user"
  shows "\<exists>bs. handle_request t lib cfg \<lparr>req_ty = GETPWBYNAME, req_key = with_nul name\<rparr> = Ok bs \<and>
    decode_user_reply t bs = Some user"
  using assms user_reply.roundtrip [of user t] from_bytes_with_nul_eq_Ok [of "with_nul name" name]
  by (simp add: handle_branches(2) to_str_def)

subsection \<open>Host lookups that succeed after some retries\<close>

text \<open>Attempt \<open>n\<close> is the first whose return code is not \<open>ERANGE\<close>, and it leaves the cells \<open>st\<close>.\<close>

definition settles_at :: "target \<Rightarrow> gethost_call \<Rightarrow> nat \<Rightarrow> ffi_state \<Rightarrow> bool" where
  "settles_at t call n st \<longleftrightarrow> (\<forall>j < n. fst (attempt call j ffi_init) = tgt_ERANGE t) \<and>
     fst (attempt call n ffi_init) \<noteq> tgt_ERANGE t \<and> snd (attempt call n ffi_init) = st"

lemma gethostbyaddr_loop_settled:
  assumes "settles_at t call n st" "n \<le> 13"
  shows "gethostbyaddr_loop t call 1024 ffi_init = Some (Ok st)"
proof -
  have small: "1024 * 2 ^ j \<le> (8388608 :: nat)" if "j \<le> n" for j
    using power_increasing [of j 13 "2 :: nat"] that assms(2) by simp
  have "gethostbyaddr_loop t call 1024 ffi_init = Some (Ok (snd (attempt call n ffi_init)))"
    using assms(1) small [OF order.refl] le_less_trans [OF small]
    by (intro by_addr.result) (auto simp: settles_at_def)
  with assms(1) show ?thesis by (simp add: settles_at_def)
qed

lemma gethostbyname2_loop_settled:
  assumes "settles_at t call n st" "n \<le> 52"
  shows "gethostbyname2_loop t call 1024 ffi_init = Some (Ok st)"
proof -
  have "(2 :: nat) ^ n \<le> 2 ^ 52" using assms(2) by (intro power_increasing) simp_all
  then have "gethostbyname2_loop t call 1024 ffi_init = Some (Ok (snd (attempt call n ffi_init)))"
    using assms(1) by (intro by_name.result) (auto simp: settles_at_def)
  with assms(1) show ?thesis by (simp add: settles_at_def)
qed

text \<open>
  A request for a host: what its key must be to name \<open>arg\<close>, the glibc call the handler then makes,
  and the number of retries within which the call has to settle.
\<close>

fun host_key :: "RequestType \<Rightarrow> byte list \<Rightarrow> byte list \<Rightarrow> bool" where
  "host_key GETHOSTBYADDR arg key \<longleftrightarrow> key = arg \<and> length arg = 4"
| "host_key GETHOSTBYADDRv6 arg key \<longleftrightarrow> key = arg \<and> length arg = 16"
| "host_key GETHOSTBYNAME arg key \<longleftrightarrow> key = with_nul arg \<and> cstring_ok arg \<and> is_utf8 arg"
| "host_key GETHOSTBYNAMEv6 arg key \<longleftrightarrow> key = with_nul arg \<and> cstring_ok arg \<and> is_utf8 arg"
| "host_key _ arg key \<longleftrightarrow> False"

fun host_call :: "target \<Rightarrow> libs \<Rightarrow> RequestType \<Rightarrow> byte list \<Rightarrow> gethost_call" where
  "host_call t lib GETHOSTBYADDR arg = lib_gethostbyaddr_r lib arg 4 (tgt_AF_INET t)"
| "host_call t lib GETHOSTBYADDRv6 arg = lib_gethostbyaddr_r lib arg 16 (tgt_AF_INET6 t)"
| "host_call t lib GETHOSTBYNAME arg = lib_gethostbyname2_r lib arg (tgt_AF_INET t)"
| "host_call t lib _ arg = lib_gethostbyname2_r lib arg (tgt_AF_INET6 t)"

fun host_retries :: "RequestType \<Rightarrow> nat" where
  "host_retries GETHOSTBYADDR = 13"
| "host_retries GETHOSTBYADDRv6 = 13"
| "host_retries _ = 52"

lemma handle_host:
  assumes "config_ok cfg" "\<not> ignores cfg ty" "host_key ty arg key"
    and "settles_at t (host_call t lib ty arg) n st" "n \<le> host_retries ty"
  shows "\<exists>e. handle_request t lib cfg \<lparr>req_ty = ty, req_key = key\<rparr> =
    obind (hostent_or_bail e (unmarshal_gethostbyxx t (ffi_mem st) (ffi_result st) (ffi_herrno st)))
      (serialize_hostent t)"
proof -
  have str: "from_bytes_with_nul (with_nul arg) = Ok arg" if "cstring_ok arg"
    using that from_bytes_with_nul_eq_Ok [of "with_nul arg" arg] by simp
  have "ty \<in> host_types" using assms(3) by (cases ty) (simp_all add: host_types_def)
  then show ?thesis
    using assms str unfolding host_types_def
    by (auto simp: handle_defs should_ignore_members gethostbyaddr_r_def gethostbyname2_r_def to_str_def
        gethostbyaddr_loop_settled gethostbyname2_loop_settled)
qed

text \<open>Libraries that know one user and answer every host lookup with "host not found".\<close>

definition example_user :: User where
  "example_user = \<lparr>u_name = [114], u_passwd = [120], u_uid = 0, u_gid = 7, u_gecos = [],
     u_dir = [47], u_shell = [47]\<rparr>"

definition example_libs :: libs where
  "example_libs = \<lparr>lib_from_i32 = from_i32_by_search, lib_atoi = (\<lambda>_. Some 0),
     lib_user_from_uid = (\<lambda>uid. Inr (if uid = 0 then Some example_user else None)),
     lib_user_from_name = (\<lambda>name. Inr (if name = [114] then Some example_user else None)),
     lib_group_from_gid = (\<lambda>_. Inr None), lib_group_from_name = (\<lambda>_. Inr None),
     lib_getgrouplist = (\<lambda>_ gid. Inr [gid, 3000000000]),
     lib_getaddrinfo = (\<lambda>_ _. Inl 2),
     lib_gethostbyaddr_r = (\<lambda>_ _ _ _ st. (0, st\<lparr>ffi_herrno := 1\<rparr>)),
     lib_gethostbyname2_r = (\<lambda>_ _ _ st. (0, st\<lparr>ffi_herrno := 1\<rparr>))\<rparr>"

lemma Config_default_ok [simp]:
  "config_ok Config_default" "set_members (ignored_request_types Config_default) = {}"
  by (simp_all add: Config_default_def bitset.new)

section \<open>Properties of the handler\<close>

text \<open>
  C20. The reply to a request is empty exactly when its type is configured to be ignored or is one
  of the types the program does not serve (cache control, file descriptors, services, netgroups,
  statistics): a shutdown or invalidate request has no effect at all.
\<close>

theorem empty_reply_iff:
  assumes "config_ok cfg"
  shows "handle_request t lib cfg r = Ok [] \<longleftrightarrow> ignores cfg (req_ty r) \<or> req_ty r \<notin> answered"
  using assms handle_ignored handle_unanswered handle_not_empty by blast

theorem empty_reply_iff_witness:
  "handle_request linux_release example_libs Config_default \<lparr>req_ty = SHUTDOWN, req_key = []\<rparr> = Ok []"
  by (rule empty_reply_iff [THEN iffD2]) (simp_all add: answered_def host_types_def)

text \<open>
  C22. The four lookups of users and groups answer with the entry the database has: by name, if the
  key is a NUL-terminated UTF-8 string, and by number, if \<open>atoi\<close> reads one from the key.  The client
  decodes the reply to exactly that entry, or to "no such entry".
\<close>

theorem passwd_group_reply:
  assumes "config_ok cfg" "\<not> ignores cfg ty" "cstring_ok key"
    and "ty \<in> {GETPWBYNAME, GETGRBYNAME} \<longrightarrow> is_utf8 key"
    and "ty \<in> {GETPWBYUID, GETGRBYGID} \<longrightarrow> lib_atoi lib key = Some n"
  shows "(\<forall>user. option_fits user_fits user \<and>
       (ty = GETPWBYNAME \<and> lib_user_from_name lib key = Inr user \<or>
        ty = GETPWBYUID \<and> lib_user_from_uid lib n = Inr user) \<longrightarrow>
       (\<exists>bs. handle_request t lib cfg \<lparr>req_ty = ty, req_key = with_nul key\<rparr> = Ok bs \<and>
          decode_user_reply t bs = Some user)) \<and>
    (\<forall>grp. option_fits group_fits grp \<and>
       (ty = GETGRBYNAME \<and> lib_group_from_name lib key = Inr grp \<or>
        ty = GETGRBYGID \<and> lib_group_from_gid lib n = Inr grp) \<longrightarrow>
       (\<exists>bs. handle_request t lib cfg \<lparr>req_ty = ty, req_key = with_nul key\<rparr> = Ok bs \<and>
          decode_group_reply t bs = Some grp))"
  using assms user_reply.roundtrip [of _ t] group_reply.roundtrip [of _ t]
    from_bytes_with_nul_eq_Ok [of "with_nul key" key]
  by (auto simp: handle_branches to_str_def)

theorem passwd_group_reply_witness:
  "\<exists>bs. handle_request linux_release example_libs Config_default
      \<lparr>req_ty = GETPWBYUID, req_key = with_nul [48]\<rparr> = Ok bs \<and>
    decode_user_reply linux_release bs = Some (Some example_user)"
  using passwd_group_reply [of Config_default GETPWBYUID "[48]" example_libs 0 linux_release]
  by (simp add: cstring_ok_def example_libs_def example_user_def user_fits_def wire_string_def)

text \<open>
  C24. An initgroups request is answered with the group list of the user; an unknown user and a
  failure of \<open>getgrouplist\<close> both give an empty list, not an error.  But if one of the groups has an id
  of \<open>2^31\<close> or more the request fails with a conversion error, and the client gets no reply.
\<close>

theorem initgroups_reply_content:
  assumes "config_ok cfg" "\<not> ignores cfg INITGROUPS" "cstring_ok name" "is_utf8 name"
    and "lib_user_from_name lib name = Inr user"
    and "groups = (case user of None \<Rightarrow> [] | Some u \<Rightarrow>
      (case lib_getgrouplist lib name (u_gid u) of Inl _ \<Rightarrow> [] | Inr gs \<Rightarrow> gs))"
  shows "if length groups \<le> i32_max \<and> (\<forall>gid \<in> set groups. unat gid < 2 ^ 31)
    then \<exists>bs. handle_request t lib cfg \<lparr>req_ty = INITGROUPS, req_key = with_nul name\<rparr> = Ok bs \<and>
      decode_initgroups_reply t bs = Some groups
    else \<exists>e. handle_request t lib cfg \<lparr>req_ty = INITGROUPS, req_key = with_nul name\<rparr> = Err e"
proof -
  have "handle_request t lib cfg \<lparr>req_ty = INITGROUPS, req_key = with_nul name\<rparr> = serialize_initgroups t groups"
    using assms from_bytes_with_nul_eq_Ok [of "with_nul name" name]
    by (auto simp: handle_defs should_ignore_members to_str_def Let_def split: option.splits sum.splits)
  moreover have "groups_fit groups \<longleftrightarrow> length groups \<le> i32_max \<and> (\<forall>gid \<in> set groups. unat gid < 2 ^ 31)"
    by (auto simp: groups_fit_def list_all_iff)
  ultimately show ?thesis
    using initgroups_reply.roundtrip [of groups t] initgroups_reply.unfit [of groups t] by auto
qed

theorem initgroups_reply_content_witness:
  "\<exists>e. handle_request linux_release example_libs Config_default
      \<lparr>req_ty = INITGROUPS, req_key = with_nul [114]\<rparr> = Err e"
  using initgroups_reply_content [of Config_default "[114]" example_libs "Some example_user" "[7, 3000000000]" linux_release]
  by (simp add: cstring_ok_def example_libs_def example_user_def)

text \<open>
  C21. The four host lookups answer with what glibc found.  Once glibc has stopped asking for a larger
  buffer, a missing entry is answered with "not found" and the \<open>h_errno\<close> glibc left, and an entry in
  C memory with exactly that entry: its name, its aliases and all its addresses, in order, and error 0.
\<close>

theorem host_lookup_reply:
  assumes "config_ok cfg" "\<not> ignores cfg ty" "host_key ty arg key" "tgt_AF_INET t \<noteq> tgt_AF_INET6 t"
    and "settles_at t (host_call t lib ty arg) n st" "n \<le> host_retries ty"
  shows "(ffi_result st = None \<longrightarrow>
      (\<exists>bs. handle_request t lib cfg \<lparr>req_ty = ty, req_key = key\<rparr> = Ok bs \<and>
         decode_host_reply t bs = Some (Host_Not_Found (ffi_herrno st)))) \<and>
    (\<forall>v h. ffi_result st = Some v \<and> hostent_at t (ffi_mem st) v h \<and> host_fits t h \<and> he_addr_list h \<noteq> [] \<longrightarrow>
      (\<exists>bs. handle_request t lib cfg \<lparr>req_ty = ty, req_key = key\<rparr> = Ok bs \<and>
         decode_host_reply t bs = Some (Host_Found (he_name h) (he_aliases h) (he_addr_type h)
           (map ip_octets (he_addr_list h)) 0)))"
proof -
  obtain e where reply: "handle_request t lib cfg \<lparr>req_ty = ty, req_key = key\<rparr> =
      obind (hostent_or_bail e (unmarshal_gethostbyxx t (ffi_mem st) (ffi_result st) (ffi_herrno st)))
        (serialize_hostent t)"
    using handle_host [OF assms(1-3,5,6)] by blast
  have "host_fits t (Hostent_error_value (ffi_herrno st))"
    by (simp add: host_fits_def Hostent_error_value_def)
  note missing = host_reply.roundtrip [OF this]
  have found: "from_libc_hostent t m v = Ok h" "he_herrno h = 0" if "hostent_at t m v h" for m v h
    using that assms(4) from_libc_hostent_at by (auto simp: hostent_at_def)
  show ?thesis
    using missing found host_reply.roundtrip [of t]
    by (fastforce simp: reply unmarshal_gethostbyxx_def host_reply_of_def Hostent_error_value_def)
qed

theorem host_lookup_reply_witness:
  "\<exists>bs. handle_request linux_release
      (example_libs\<lparr>lib_gethostbyaddr_r := \<lambda>_ _ _ _ st.
        (0, \<lparr>ffi_mem = example_mem, ffi_result = Some example_hostent, ffi_herrno = 0\<rparr>)\<rparr>)
      Config_default \<lparr>req_ty = GETHOSTBYADDR, req_key = [127, 0, 0, 1]\<rparr> = Ok bs \<and>
    decode_host_reply linux_release bs = Some (Host_Found [104] [[97]] 2 [[127, 0, 0, 1]] 0)"
proof -
  let ?st = "\<lparr>ffi_mem = example_mem, ffi_result = Some example_hostent, ffi_herrno = 0\<rparr>"
  let ?libs = "example_libs\<lparr>lib_gethostbyaddr_r := \<lambda>_ _ _ _ st. (0, ?st)\<rparr>"
  let ?h = "\<lparr>he_name = [104], he_aliases = [[97]], he_addr_type = 2, he_addr_list = [V4 [127, 0, 0, 1]],
    he_herrno = 0\<rparr>"
  have "hostent_at linux_release example_mem example_hostent ?h"
    using example_in_memory
    by (simp add: hostent_at_def example_hostent_def linux_release_def del: ptr_array_at.simps)
  moreover have "host_fits linux_release ?h"
    by (simp add: host_fits_def linux_release_def ip_of_family_def)
  moreover have "settles_at linux_release (host_call linux_release ?libs GETHOSTBYADDR [127, 0, 0, 1]) 0 ?st"
    by (simp add: settles_at_def linux_release_def)
  moreover have "tgt_AF_INET linux_release \<noteq> tgt_AF_INET6 linux_release"
    by (simp add: linux_release_def)
  ultimately show ?thesis
    using host_lookup_reply [of Config_default GETHOSTBYADDR "[127, 0, 0, 1]" "[127, 0, 0, 1]" linux_release ?libs 0 ?st]
    by simp (drule spec [of _ ?h], simp add: ip_octets_def)
qed

text \<open>
  C23. An address-information request is answered with the addresses of the elements of the list that
  \<open>getaddrinfo\<close> returned without an error, in order, and with the canonical name of the first of them,
  or the requested name if it has none.  If the call fails or no element is left, the client reads
  "not found".
\<close>

theorem getai_reply:
  assumes "config_ok cfg" "\<not> ignores cfg GETAI" "cstring_ok name" "is_utf8 name" "families_differ t"
    and "infos = (case lib_getaddrinfo lib name \<lparr>hint_flags = tgt_AI_CANONNAME t,
       hint_socktype = tgt_SOCK_STREAM t, hint_address = 0, hint_protocol = 0\<rparr> of Inl _ \<Rightarrow> [] | Inr is \<Rightarrow> is)"
    and "oks = [a. Inr a \<leftarrow> infos]"
    and "canon = (case oks of [] \<Rightarrow> name | a # _ \<Rightarrow> (case ai_canonname a of None \<Rightarrow> name | Some c \<Rightarrow> c))"
    and "ai_fits \<lparr>ai_addrs = map ai_sockaddr_ip oks, ai_canon_name = canon\<rparr>"
  shows "\<exists>bs. handle_request t lib cfg \<lparr>req_ty = GETAI, req_key = with_nul name\<rparr> = Ok bs \<and>
    decode_ai_reply t bs = Some (if oks = [] then None
      else Some \<lparr>ai_addrs = map ai_sockaddr_ip oks, ai_canon_name = canon\<rparr>)"
proof -
  let ?r = "\<lparr>ai_addrs = map ai_sockaddr_ip oks, ai_canon_name = canon\<rparr>"
  have "List.map_filter (\<lambda>e. case e of Inl _ \<Rightarrow> None | Inr a \<Rightarrow> Some a) infos = oks"
    unfolding assms(7) by (rule map_filter_oks)
  then have "handle_request t lib cfg \<lparr>req_ty = GETAI, req_key = with_nul name\<rparr> = serialize_address_info t ?r"
    using assms(1-4,6,7,8) from_bytes_with_nul_eq_Ok [of "with_nul name" name]
    by (auto simp: handle_defs should_ignore_members to_str_def ai_response_of_def Let_def split: sum.splits)
  then show ?thesis
    using ai_reply.roundtrip [of t ?r] assms(5,9) by (simp add: ai_view_def)
qed

theorem getai_reply_witness:
  "\<exists>bs. handle_request linux_release
      (example_libs\<lparr>lib_getaddrinfo := \<lambda>_ _. Inr [Inl 3, Inr \<lparr>ai_canonname = None, ai_sockaddr_ip = V4 [127, 0, 0, 1]\<rparr>]\<rparr>)
      Config_default \<lparr>req_ty = GETAI, req_key = with_nul [104]\<rparr> = Ok bs \<and>
    decode_ai_reply linux_release bs = Some (Some \<lparr>ai_addrs = [V4 [127, 0, 0, 1]], ai_canon_name = [104]\<rparr>)"
  using getai_reply [of Config_default "[104]" linux_release _
      "example_libs\<lparr>lib_getaddrinfo := \<lambda>_ _. Inr [Inl 3, Inr \<lparr>ai_canonname = None, ai_sockaddr_ip = V4 [127, 0, 0, 1]\<rparr>]\<rparr>"]
  by (simp add: cstring_ok_def families_differ_def linux_release_def ai_fits_def ip_octets_def ip_ok_def wire_string_def)

text \<open>
  C13. Every reply is well formed for its request type: a reply that is not empty and not longer than
  \<open>i32::MAX\<close> bytes is decoded, to its last byte, by a client that expects the answer to that type of
  request.  For users, groups and group lists the limit on the length is not needed.
\<close>

theorem replies_well_formed:
  assumes "config_ok cfg" "families_differ t" "addresses_typed lib"
    and "handle_request t lib cfg r = Ok bs" "bs \<noteq> []"
    and "req_ty r \<in> host_types \<union> {GETAI} \<longrightarrow> length bs \<le> i32_max"
  shows "reply_decodes t (req_ty r) bs"
proof -
  have "\<not> ignores cfg (req_ty r)" "req_ty r \<in> answered"
    using assms(4,5) handle_ignored [OF assms(1), of r t lib] handle_unanswered [OF assms(1), of r t lib] by auto
  with assms show ?thesis
    by (cases "req_ty r")
      (simp_all add: handle_request_def should_ignore_members reply_decodes_def answered_def host_types_def
        account_arm_decodes getai_arm_decodes lookup_arm_decodes)
qed

theorem replies_well_formed_witness:
  "\<exists>bs. handle_request linux_release example_libs Config_default \<lparr>req_ty = GETPWBYNAME, req_key = with_nul [114]\<rparr> = Ok bs \<and>
     reply_decodes linux_release GETPWBYNAME bs"
proof -
  let ?r = "\<lparr>req_ty = GETPWBYNAME, req_key = with_nul [114]\<rparr>"
  obtain bs where bs: "handle_request linux_release example_libs Config_default ?r = Ok bs"
    using handle_getpwbyname [of Config_default "[114]" example_libs "Some example_user" linux_release]
    by (auto simp: cstring_ok_def example_libs_def example_user_def user_fits_def wire_string_def)
  moreover have "bs \<noteq> []" using handle_not_empty [OF _ _ _ bs] by (simp add: answered_def)
  moreover have "addresses_typed example_libs" "families_differ linux_release"
    by (simp_all add: addresses_typed_def example_libs_def families_differ_def linux_release_def)
  ultimately show ?thesis
    using replies_well_formed [of Config_default linux_release example_libs ?r bs] by (simp add: host_types_def)
qed

text \<open>
  C34. Which replies carry the protocol version: every reply that is not empty starts with it, except
  the ones that tell a client that a user or a group does not exist, and these are all zero bytes, the
  version field included.
\<close>

theorem reply_version:
  assumes "config_ok cfg" "handle_request t lib cfg r = Ok bs" "bs \<noteq> []"
  shows "if req_ty r \<in> {GETPWBYUID, GETPWBYNAME} \<and> decode_user_reply t bs = Some None then bs = replicate 36 0
    else if req_ty r \<in> {GETGRBYGID, GETGRBYNAME} \<and> decode_group_reply t bs = Some None then bs = replicate 24 0
    else take 4 bs = to_ne_bytes t VERSION"
proof -
  have "\<not> ignores cfg (req_ty r)" "req_ty r \<in> answered"
    using assms(2,3) handle_ignored [OF assms(1), of r t lib] handle_unanswered [OF assms(1), of r t lib] by auto
  with assms(1,2) show ?thesis
    by (cases "req_ty r")
      (simp_all add: handle_request_def should_ignore_members answered_def host_types_def arm_version)
qed

theorem reply_version_witness:
  "handle_request linux_release (example_libs\<lparr>lib_user_from_name := \<lambda>_. Inr None\<rparr>) Config_default
     \<lparr>req_ty = GETPWBYNAME, req_key = with_nul [114]\<rparr> = Ok (replicate 36 0) \<and>
   (\<exists>bs. handle_request linux_release example_libs Config_default \<lparr>req_ty = GETPWBYNAME, req_key = with_nul [114]\<rparr> =
      Ok bs \<and> take 4 bs = to_ne_bytes linux_release VERSION)"
proof -
  let ?r = "\<lparr>req_ty = GETPWBYNAME, req_key = with_nul [114]\<rparr>"
  let ?none = "example_libs\<lparr>lib_user_from_name := \<lambda>_. Inr None\<rparr>"
  have "\<exists>bs. handle_request linux_release ?none Config_default ?r = Ok bs \<and> decode_user_reply linux_release bs = Some None"
    "\<exists>bs. handle_request linux_release example_libs Config_default ?r = Ok bs \<and>
      decode_user_reply linux_release bs = Some (Some example_user)"
    by (rule handle_getpwbyname;
        simp add: cstring_ok_def example_libs_def example_user_def user_fits_def wire_string_def)+
  then obtain bs bs' where bs: "handle_request linux_release ?none Config_default ?r = Ok bs"
      "decode_user_reply linux_release bs = Some None"
    and bs': "handle_request linux_release example_libs Config_default ?r = Ok bs'"
      "decode_user_reply linux_release bs' = Some (Some example_user)" by blast
  have "bs \<noteq> []" "bs' \<noteq> []"
    using handle_not_empty [OF _ _ _ bs(1)] handle_not_empty [OF _ _ _ bs'(1)] by (simp_all add: answered_def)
  then show ?thesis
    using reply_version [OF Config_default_ok(1) bs(1)] reply_version [OF Config_default_ok(1) bs'(1)] bs bs' by simp
qed

text \<open>
  C25. A key that is not a string with exactly one NUL, at its end, is refused before any library is
  called, for every request type that takes a string; so is an address key of the wrong length.
\<close>

theorem malformed_key_refused:
  assumes "config_ok cfg" "\<not> ignores cfg ty"
    and "ty \<in> {GETPWBYUID, GETPWBYNAME, GETGRBYGID, GETGRBYNAME, INITGROUPS, GETAI, GETHOSTBYNAME, GETHOSTBYNAMEv6} \<and>
         (\<nexists>s. key = with_nul s \<and> cstring_ok s) \<or>
       ty = GETHOSTBYADDR \<and> length key \<noteq> 4 \<or> ty = GETHOSTBYADDRv6 \<and> length key \<noteq> 16"
  shows "\<exists>e. \<forall>lib. handle_request t lib cfg \<lparr>req_ty = ty, req_key = key\<rparr> = Err e"
proof -
  have "(\<nexists>s. key = with_nul s \<and> cstring_ok s) \<Longrightarrow> from_bytes_with_nul key = Err From_Bytes_With_Nul_Error"
    using from_bytes_with_nul_eq_Ok [of key "butlast key"] by (auto simp: from_bytes_with_nul_def split: if_splits)
  then show ?thesis
    using assms by (auto simp: handle_defs should_ignore_members)
qed

theorem malformed_key_refused_witness:
  "\<exists>e. \<forall>lib. handle_request linux_release lib Config_default
     \<lparr>req_ty = GETPWBYNAME, req_key = [0x7F, 0, 0, 1]\<rparr> = Err e"
  by (rule malformed_key_refused) (auto simp: with_nul_def)

text \<open>
  C26. In a release build no request makes the handler panic or run forever, provided glibc stops
  asking for a larger buffer within 53 attempts; requests other than host lookups always return,
  in any build and without that provision.
\<close>

theorem handle_request_no_panic:
  assumes "config_ok cfg"
  shows "(req_ty r \<notin> host_types \<longrightarrow> returns (handle_request t lib cfg r)) \<and>
    (\<not> tgt_debug t \<and> glibc_settles t lib \<longrightarrow> no_panic (handle_request t lib cfg r))"
  using assms handle_returns handle_no_panic by blast

theorem handle_request_no_panic_witness:
  "no_panic (handle_request linux_release example_libs Config_default
     \<lparr>req_ty = GETHOSTBYNAME, req_key = [104, 0]\<rparr>)"
proof -
  have "glibc_settles linux_release example_libs"
    by (auto simp: glibc_settles_def example_libs_def linux_release_def intro: exI [of _ 0])
  then show ?thesis
    using handle_request_no_panic [OF Config_default_ok(1),
        of "\<lparr>req_ty = GETHOSTBYNAME, req_key = [104, 0]\<rparr>" linux_release example_libs]
    by (simp add: linux_release_def)
qed

end
