(* ===== verification/Connection.thy ===== *)
theory Connection
  imports Handlers
begin

section \<open>Serving one connection\<close>

text \<open>
  Model of \<open>handle_stream\<close> of \<open>src/main.rs\<close>: one read of at most 4096 bytes, the parser, the handler,
  one write of the whole reply and the shutdown of both directions.  A connection is described by
  what its peer and the kernel make of it; the function returns the list of what it does to the
  connection and to the log, and its outcome.  The messages that \<open>handle_request\<close> logs are left out.
\<close>

subsection \<open>Connections\<close>

datatype ErrorKind = ConnectionReset | BrokenPipe | OtherKind

text \<open>
  \<open>us_incoming\<close> is what the receive buffer holds when \<open>read\<close> is called, or the error of the call;
  \<open>us_write_all\<close> and \<open>us_shutdown\<close> give the errors of these calls, if any.
\<close>

record UnixStream =
  us_incoming :: "ErrorKind + byte list"
  us_write_all :: "byte list \<Rightarrow> ErrorKind option"
  us_shutdown :: "ErrorKind option"

datatype level = Debug | Error

datatype event =
    Log level string
  | Write_All "byte list"
  | Shutdown_Both

text \<open>\<open>Read::read\<close> fills a prefix of the buffer and returns its length.\<close>

definition us_read :: "UnixStream \<Rightarrow> byte list \<Rightarrow> ErrorKind + byte list \<times> nat" where
  "us_read stream buf = (case us_incoming stream of
     Inl e \<Rightarrow> Inl e
   | Inr bs \<Rightarrow> let n = min (length bs) (length buf) in Inr (take n bs @ drop n buf, n))"

text \<open>
  \<open>match ... { Ok(x) => x, Err(e) => { log; return } }\<close>: after an error the function logs and
  returns; a panic, undefined behaviour and divergence go on to the caller.
\<close>

fun or_log_and_return ::
    "('e, 'a) outcome \<Rightarrow> event \<Rightarrow> ('a \<Rightarrow> event list \<times> (error, unit) outcome) \<Rightarrow>
     event list \<times> (error, unit) outcome" where
  "or_log_and_return (Ok a) l k = k a"
| "or_log_and_return (Err e) l k = ([l], Ok ())"
| "or_log_and_return (Panic p) l k = ([], Panic p)"
| "or_log_and_return Undefined l k = ([], Undefined)"
| "or_log_and_return Diverge l k = ([], Diverge)"

definition send_response :: "UnixStream \<Rightarrow> byte list \<Rightarrow> event list" where
  "send_response stream response =
     Write_All response #
     (case us_write_all stream response of
        None \<Rightarrow> []
      | Some ConnectionReset \<Rightarrow> []
      | Some BrokenPipe \<Rightarrow> []
      | Some OtherKind \<Rightarrow> [Log Debug ''sending response'']) @
     Shutdown_Both #
     (case us_shutdown stream of
        None \<Rightarrow> []
      | Some _ \<Rightarrow> [Log Debug ''shutting down stream''])"

definition handle_stream ::
    "target \<Rightarrow> libs \<Rightarrow> Config \<Rightarrow> UnixStream \<Rightarrow> event list \<times> (error, unit) outcome" where
  "handle_stream t lib config stream =
     apfst (Cons (Log Debug ''accepted connection''))
     (case us_read stream (replicate 4096 0) of
        Inl e \<Rightarrow> ([Log Debug ''reading from connection''], Ok ())
      | Inr (buf, size_read) \<Rightarrow>
          or_log_and_return (obind (slice buf 0 size_read) (parse t (lib_from_i32 lib)))
            (Log Debug ''parsing request'') (\<lambda>request.
          or_log_and_return (handle_request t lib config request)
            (Log Error ''error handling request'') (\<lambda>response.
          (send_response stream response, Ok ()))))"

section \<open>Lemmas of the connection\<close>

text \<open>What the peer can observe: everything but the log.\<close>

fun is_log :: "event \<Rightarrow> bool" where
  "is_log (Log _ _) = True"
| "is_log _ = False"

abbreviation io_actions :: "event list \<times> 'r \<Rightarrow> event list" where
  "io_actions r \<equiv> filter (\<lambda>e. \<not> is_log e) (fst r)"

lemma us_read_buffer:
  "us_incoming s = Inr bs \<Longrightarrow> us_read s buf =
     Inr (take (length buf) bs @ drop (length bs) buf, min (length bs) (length buf))"
  by (auto simp: us_read_def Let_def min_def)

text \<open>The parser sees the first 4096 bytes that have arrived.\<close>

lemma handle_stream_incoming:
  assumes "us_incoming s = Inr bs"
  shows "handle_stream t lib cfg s =
    apfst (Cons (Log Debug ''accepted connection''))
    (or_log_and_return (parse t (lib_from_i32 lib) (take 4096 bs)) (Log Debug ''parsing request'')
      (\<lambda>request. or_log_and_return (handle_request t lib cfg request)
        (Log Error ''error handling request'') (\<lambda>response. (send_response s response, Ok ()))))"
  using assms by (simp add: handle_stream_def us_read_buffer min_def)

lemma handle_stream_read_error:
  "us_incoming s = Inl e \<Longrightarrow> handle_stream t lib cfg s =
     ([Log Debug ''accepted connection'', Log Debug ''reading from connection''], Ok ())"
  by (simp add: handle_stream_def us_read_def)

lemma io_send_response: "filter (\<lambda>e. \<not> is_log e) (send_response s bs) = [Write_All bs, Shutdown_Both]"
  by (auto simp: send_response_def split: option.split ErrorKind.split)

lemma io_or_log_and_return:
  "io_actions (or_log_and_return x l k) = (case x of Ok a \<Rightarrow> io_actions (k a) | _ \<Rightarrow> filter (\<lambda>e. \<not> is_log e)
     (case x of Err _ \<Rightarrow> [l] | _ \<Rightarrow> []))"
  by (cases x) simp_all

lemma snd_or_log_and_return_Panic:
  "snd (or_log_and_return x l k) = Panic p \<longleftrightarrow> x = Panic p \<or> (\<exists>a. x = Ok a \<and> snd (k a) = Panic p)"
  by (cases x) simp_all

lemma handle_stream_io:
  "io_actions (handle_stream t lib cfg s) =
     (case us_incoming s of
        Inl _ \<Rightarrow> []
      | Inr bs \<Rightarrow> (case obind (parse t (lib_from_i32 lib) (take 4096 bs)) (handle_request t lib cfg) of
            Ok response \<Rightarrow> [Write_All response, Shutdown_Both]
          | _ \<Rightarrow> []))"
proof (cases "us_incoming s")
  case (Inl e)
  then show ?thesis by (simp add: handle_stream_read_error)
next
  case (Inr bs)
  then show ?thesis
    by (cases "parse t (lib_from_i32 lib) (take 4096 bs)")
      (auto simp: handle_stream_incoming io_or_log_and_return io_send_response split: outcome.split)
qed

lemma handle_stream_writes:
  "Write_All bs \<in> set (fst (handle_stream t lib cfg s)) \<longleftrightarrow>
     (\<exists>inc. us_incoming s = Inr inc \<and>
        obind (parse t (lib_from_i32 lib) (take 4096 inc)) (handle_request t lib cfg) = Ok bs)"
proof -
  have "Write_All bs \<in> set (fst (handle_stream t lib cfg s)) \<longleftrightarrow> Write_All bs \<in> set (io_actions (handle_stream t lib cfg s))"
    by simp
  also have "\<dots> \<longleftrightarrow> (\<exists>inc. us_incoming s = Inr inc \<and>
      obind (parse t (lib_from_i32 lib) (take 4096 inc)) (handle_request t lib cfg) = Ok bs)"
    unfolding handle_stream_io by (cases "us_incoming s") (auto split: outcome.split)
  finally show ?thesis .
qed

text \<open>A request that fits the read buffer is parsed; a longer one, or a part of one, is refused.\<close>

lemma parse_prefix:
  assumes "from_primitive_law f"
  shows "parse t f (take 4096 bs) = Ok r \<longleftrightarrow>
    12 + length (req_key r) \<le> 4096 \<and> (\<exists>junk. bs = encode_request t r @ junk)"
proof -
  have len: "length (encode_request t r) = 12 + length (req_key r)"
    by (simp add: encode_request_def request_header_def)
  have "(\<exists>junk. take 4096 bs = encode_request t r @ junk) \<longleftrightarrow>
      12 + length (req_key r) \<le> 4096 \<and> (\<exists>junk. bs = encode_request t r @ junk)" (is "?l \<longleftrightarrow> ?r")
  proof
    assume ?l
    then obtain junk where junk: "take 4096 bs = encode_request t r @ junk" ..
    then have "length (encode_request t r @ junk) \<le> 4096"
      by (metis length_take min.cobounded2)
    moreover have "bs = encode_request t r @ junk @ drop 4096 bs"
      using junk by (metis append.assoc append_take_drop_id)
    ultimately show ?r using len by auto
  next
    assume ?r
    then show ?l using len by auto
  qed
  then show ?thesis using parse_Ok_iff [OF assms, of t "take 4096 bs" r] by auto
qed

lemma header_prefix:
  "(\<exists>rest. take 4096 bs = request_header t ty v @ rest) \<longleftrightarrow> (\<exists>rest. bs = request_header t ty v @ rest)"
    (is "?l \<longleftrightarrow> ?r")
proof
  assume ?l
  then obtain rest where "take 4096 bs = request_header t ty v @ rest" ..
  then have "bs = request_header t ty v @ rest @ drop 4096 bs"
    by (metis append.assoc append_take_drop_id)
  then show ?r by blast
next
  assume ?r
  then show ?l by (auto simp: request_header_def)
qed

lemma handle_stream_Panic:
  "snd (handle_stream t lib cfg s) = Panic p \<longleftrightarrow>
     (\<exists>bs. us_incoming s = Inr bs \<and>
        obind (parse t (lib_from_i32 lib) (take 4096 bs)) (handle_request t lib cfg) = Panic p)"
proof (cases "us_incoming s")
  case (Inl e)
  then show ?thesis by (simp add: handle_stream_read_error)
next
  case (Inr bs)
  then show ?thesis
    by (auto simp: handle_stream_incoming snd_or_log_and_return_Panic obind_eq_Panic)
qed

text \<open>A peer that has sent the given bytes and then accepts everything.\<close>

definition peer_sending :: "byte list \<Rightarrow> UnixStream" where
  "peer_sending bs = \<lparr>us_incoming = Inr bs, us_write_all = (\<lambda>_. None), us_shutdown = None\<rparr>"

section \<open>Properties of the connection\<close>

text \<open>
  C5. A connection is answered exactly when the bytes that have arrived start with the encoding of a
  request of at most 4096 bytes and the handler accepts the request; the answer is the whole reply of
  the handler, written once and followed by the shutdown of the connection.  In every other case
  nothing is written, and the connection is not shut down explicitly.
\<close>

theorem handle_stream_answers:
  assumes "from_primitive_law (lib_from_i32 lib)"
  shows "io_actions (handle_stream t lib cfg s) \<in> insert [] {[Write_All bs, Shutdown_Both] | bs. True} \<and>
    (\<forall>bs. io_actions (handle_stream t lib cfg s) = [Write_All bs, Shutdown_Both] \<longleftrightarrow>
      (\<exists>r junk. us_incoming s = Inr (encode_request t r @ junk) \<and> 12 + length (req_key r) \<le> 4096 \<and>
         handle_request t lib cfg r = Ok bs))"
proof (intro conjI allI)
  show "io_actions (handle_stream t lib cfg s) \<in> insert [] {[Write_All bs, Shutdown_Both] | bs. True}"
    by (auto simp: handle_stream_io split: sum.split outcome.split)
next
  fix reply
  show "io_actions (handle_stream t lib cfg s) = [Write_All reply, Shutdown_Both] \<longleftrightarrow>
      (\<exists>r junk. us_incoming s = Inr (encode_request t r @ junk) \<and> 12 + length (req_key r) \<le> 4096 \<and>
         handle_request t lib cfg r = Ok reply)"
  proof (cases "us_incoming s")
    case (Inl e)
    then show ?thesis by (simp add: handle_stream_io)
  next
    case (Inr bs)
    have "io_actions (handle_stream t lib cfg s) = [Write_All reply, Shutdown_Both] \<longleftrightarrow>
        obind (parse t (lib_from_i32 lib) (take 4096 bs)) (handle_request t lib cfg) = Ok reply"
      using Inr by (auto simp: handle_stream_io split: outcome.split)
    then show ?thesis using Inr by (auto simp: obind_eq_Ok parse_prefix [OF assms])
  qed
qed

theorem handle_stream_answers_witness:
  "io_actions (handle_stream linux_release example_libs Config_default
     (peer_sending (encode_request linux_release \<lparr>req_ty = SHUTDOWN, req_key = []\<rparr>))) =
   [Write_All [], Shutdown_Both]"
proof -
  have "from_primitive_law (lib_from_i32 example_libs)"
    by (simp add: example_libs_def from_i32_by_search_law)
  moreover have "\<exists>r junk. us_incoming (peer_sending (encode_request linux_release \<lparr>req_ty = SHUTDOWN, req_key = []\<rparr>)) =
      Inr (encode_request linux_release r @ junk) \<and> 12 + length (req_key r) \<le> 4096 \<and>
      handle_request linux_release example_libs Config_default r = Ok []"
    by (intro exI [of _ "\<lparr>req_ty = SHUTDOWN, req_key = []\<rparr>"] exI [of _ "[]"])
      (simp add: peer_sending_def handle_unanswered answered_def host_types_def)
  ultimately show ?thesis by (rule handle_stream_answers [THEN conjunct2, rule_format, THEN iffD2])
qed

text \<open>
  C19. Serving a connection panics exactly when the header that has arrived is well formed but its key
  length is between \<open>-12\<close> and \<open>-1\<close> (with overflow checks, also near \<open>i32::MAX\<close>), or when the handler
  panics on the request.  Twelve bytes from any peer are enough.
\<close>

theorem handle_stream_panics_iff:
  assumes "from_primitive_law (lib_from_i32 lib)"
  shows "snd (handle_stream t lib cfg s) = Panic p \<longleftrightarrow>
    (\<exists>ty v rest. us_incoming s = Inr (request_header t ty v @ rest) \<and>
       (p = Slice_Index \<and> - 12 \<le> sint v \<and> sint v < 0 \<or>
        p = Arith_Overflow \<and> tgt_debug t \<and> 2147483635 < sint v)) \<or>
    (\<exists>r junk. us_incoming s = Inr (encode_request t r @ junk) \<and> 12 + length (req_key r) \<le> 4096 \<and>
       handle_request t lib cfg r = Panic p)"
proof (cases "us_incoming s")
  case (Inl e)
  then show ?thesis by (simp add: handle_stream_Panic)
next
  case (Inr bs)
  have "parse t (lib_from_i32 lib) (take 4096 bs) = Panic p \<longleftrightarrow>
    (\<exists>ty v. (\<exists>rest. bs = request_header t ty v @ rest) \<and>
       (p = Slice_Index \<and> - 12 \<le> sint v \<and> sint v < 0 \<or>
        p = Arith_Overflow \<and> tgt_debug t \<and> 2147483635 < sint v))"
    by (simp only: parse_Panic_iff [OF assms]) (use header_prefix [of bs t] in blast)
  then show ?thesis
    using Inr by (auto simp: handle_stream_Panic obind_eq_Panic parse_prefix [OF assms])
qed

theorem handle_stream_panics_iff_witness:
  "snd (handle_stream linux_release example_libs Config_default
     (peer_sending (request_header linux_release GETPWBYNAME (- 1)))) = Panic Slice_Index"
proof -
  have "from_primitive_law (lib_from_i32 example_libs)"
    by (simp add: example_libs_def from_i32_by_search_law)
  moreover have "us_incoming (peer_sending (request_header linux_release GETPWBYNAME (- 1))) =
      Inr (request_header linux_release GETPWBYNAME (- 1) @ []) \<and> - 12 \<le> sint (- 1 :: i32) \<and> sint (- 1 :: i32) < 0"
    by (simp add: peer_sending_def)
  ultimately show ?thesis by (intro handle_stream_panics_iff [THEN iffD2]) blast+
qed

text \<open>
  C35. A client that disconnects before or while its reply is written leaves no trace in the log beyond
  the accepted connection: broken pipes and connection resets are expected when the client's buffer
  is too small.
\<close>

theorem disconnecting_client_not_logged:
  assumes "from_primitive_law (lib_from_i32 lib)"
    and "us_incoming s = Inr (encode_request t r @ junk)" "12 + length (req_key r) \<le> 4096"
    and "handle_request t lib cfg r = Ok bs"
    and "us_write_all s bs \<noteq> Some OtherKind" "us_shutdown s = None"
  shows "handle_stream t lib cfg s =
    ([Log Debug ''accepted connection'', Write_All bs, Shutdown_Both], Ok ())"
proof -
  have "parse t (lib_from_i32 lib) (take 4096 (encode_request t r @ junk)) = Ok r"
    using assms(1,3) by (intro parse_prefix [THEN iffD2]) auto
  then show ?thesis using assms
    by (auto simp: handle_stream_incoming send_response_def split: option.split ErrorKind.split)
qed

theorem disconnecting_client_not_logged_witness:
  "handle_stream linux_release example_libs Config_default
     \<lparr>us_incoming = Inr (encode_request linux_release \<lparr>req_ty = GETFDPW, req_key = []\<rparr> @ [1]),
      us_write_all = (\<lambda>_. Some BrokenPipe), us_shutdown = None\<rparr> =
   ([Log Debug ''accepted connection'', Write_All [], Shutdown_Both], Ok ())"
  by (rule disconnecting_client_not_logged [where r = "\<lparr>req_ty = GETFDPW, req_key = []\<rparr>" and junk = "[1]"])
    (simp_all add: example_libs_def from_i32_by_search_law handle_unanswered answered_def host_types_def)

end
