(* ===== verification/Transition.thy ===== *)
theory Transition
  imports Main
begin

section \<open>Transition systems\<close>

text \<open>
  Reachable states of a step relation, and three contracts a machine can fulfil: an inductive
  invariant, a measure that some of its steps decrease until a goal is reached, and the simulation of
  an abstract machine.
\<close>

inductive reachable :: "('s \<Rightarrow> bool) \<Rightarrow> ('s \<Rightarrow> 's \<Rightarrow> bool) \<Rightarrow> 's \<Rightarrow> bool" for init step where
  reach_init: "init s \<Longrightarrow> reachable init step s"
| reach_step: "reachable init step s \<Longrightarrow> step s s' \<Longrightarrow> reachable init step s'"

lemma reachable_steps: "step\<^sup>*\<^sup>* s s' \<Longrightarrow> reachable init step s \<Longrightarrow> reachable init step s'"
  by (induction rule: rtranclp_induct) (auto intro: reach_step)

locale inductive_invariant =
  fixes init :: "'s \<Rightarrow> bool"
    and step :: "'s \<Rightarrow> 's \<Rightarrow> bool"
    and inv :: "'s \<Rightarrow> bool"
  assumes init_inv: "init s \<Longrightarrow> inv s"
    and step_inv: "inv s \<Longrightarrow> step s s' \<Longrightarrow> inv s'"
begin

lemma reachable_inv: "reachable init step s \<Longrightarrow> inv s"
  by (induction rule: reachable.induct) (auto intro: init_inv step_inv)

lemma steps_inv: "step\<^sup>*\<^sup>* s s' \<Longrightarrow> inv s \<Longrightarrow> inv s'"
  by (induction rule: rtranclp_induct) (auto intro: step_inv)

end

text \<open>
  Some steps (\<open>internal\<close>) decrease a measure; as long as the goal is not reached one of them is
  possible, once the machine is \<open>ready\<close>.  Then any sequence of such steps is bounded, and one that
  cannot be continued has reached the goal.
\<close>

locale bounded_progress = inductive_invariant +
  fixes internal :: "'s \<Rightarrow> 's \<Rightarrow> bool"
    and ready goal :: "'s \<Rightarrow> bool"
    and fuel :: "'s \<Rightarrow> nat"
  assumes internal_step: "internal s s' \<Longrightarrow> step s s'"
    and internal_ready: "ready s \<Longrightarrow> internal s s' \<Longrightarrow> ready s'"
    and internal_decreases: "inv s \<Longrightarrow> ready s \<Longrightarrow> internal s s' \<Longrightarrow> fuel s' < fuel s"
    and enabled: "inv s \<Longrightarrow> ready s \<Longrightarrow> \<not> goal s \<Longrightarrow> \<exists>s'. internal s s'"
begin

lemma internal_run:
  "(internal ^^ k) s s' \<Longrightarrow> inv s \<Longrightarrow> ready s \<Longrightarrow> inv s' \<and> ready s' \<and> k + fuel s' \<le> fuel s"
proof (induction k arbitrary: s')
  case (Suc k)
  then obtain u where u: "(internal ^^ k) s u" "internal u s'" by auto
  with Suc have IH: "inv u" "ready u" "k + fuel u \<le> fuel s" by blast+
  with u have "inv s'" "fuel s' < fuel u" by (blast intro: step_inv internal_step internal_decreases)+
  with IH u show ?case using internal_ready by auto
qed simp

lemma internal_steps: "internal\<^sup>*\<^sup>* s s' \<Longrightarrow> step\<^sup>*\<^sup>* s s'"
  by (induction rule: rtranclp_induct) (auto intro: rtranclp.rtrancl_into_rtrancl internal_step)

lemma stuck_is_goal:
  "(internal ^^ k) s s' \<Longrightarrow> inv s \<Longrightarrow> ready s \<Longrightarrow> \<nexists>s''. internal s' s'' \<Longrightarrow> goal s'"
  using internal_run enabled by blast

lemma reaches_goal: "inv s \<Longrightarrow> ready s \<Longrightarrow> \<exists>s'. internal\<^sup>*\<^sup>* s s' \<and> goal s'"
proof (induction "fuel s" arbitrary: s rule: less_induct)
  case less
  show ?case
  proof (cases "goal s")
    case False
    then obtain u where u: "internal s u" using less.prems enabled by blast
    then have "fuel u < fuel s" "inv u" "ready u"
      using less.prems internal_decreases internal_ready step_inv internal_step by blast+
    then obtain s' where "internal\<^sup>*\<^sup>* u s'" "goal s'" using less.hyps by blast
    with u show ?thesis by (meson converse_rtranclp_into_rtranclp)
  qed blast
qed

end

text \<open>
  An abstraction function maps the machine to an abstract one: every step, from a state of the
  invariant, is a step of the abstract machine or leaves the abstract state as it is.  Then reachable
  states are abstracted to reachable ones, and what holds of these holds of the machine.
\<close>

locale simulation = inductive_invariant init step inv
  for init :: "'s \<Rightarrow> bool" and step :: "'s \<Rightarrow> 's \<Rightarrow> bool" and inv :: "'s \<Rightarrow> bool" +
  fixes abs :: "'s \<Rightarrow> 'a"
    and ainit :: "'a \<Rightarrow> bool"
    and astep :: "'a \<Rightarrow> 'a \<Rightarrow> bool"
  assumes init_abs: "init s \<Longrightarrow> ainit (abs s)"
    and step_abs: "inv s \<Longrightarrow> step s s' \<Longrightarrow> abs s' = abs s \<or> astep (abs s) (abs s')"
begin

lemma reachable_abs: "reachable init step s \<Longrightarrow> reachable ainit astep (abs s)"
proof (induction rule: reachable.induct)
  case (reach_step s s')
  then show ?case using step_abs [OF reachable_inv] by (metis reachable.reach_step)
qed (auto intro: reach_init init_abs)

lemma steps_abs: "step\<^sup>*\<^sup>* s s' \<Longrightarrow> inv s \<Longrightarrow> astep\<^sup>*\<^sup>* (abs s) (abs s')"
proof (induction rule: rtranclp_induct)
  case (step u v)
  then show ?case using step_abs [OF steps_inv] by (metis rtranclp.rtrancl_into_rtrancl)
qed simp

lemma invariant_transfer:
  "(\<And>a. reachable ainit astep a \<Longrightarrow> P a) \<Longrightarrow> reachable init step s \<Longrightarrow> P (abs s)"
  using reachable_abs by blast

end

end
