(* ===== verification/Work_Group.thy ===== *)
theory Work_Group
  imports Prelude Transition
begin

section \<open>Work groups\<close>

text \<open>
  Model of \<open>src/work_group.rs\<close> as a transition system.  The closures added to a group are programs
  with a local state and a shared state, given as a parameter; the machine adds what the file
  implements: spawning, \<open>Context::is_shutdown\<close>, \<open>Context::drop\<close>, and \<open>WorkGroup::run\<close> with its mutex,
  condition variable and join, and with its panics.

  The sections a thread executes under the mutex (\<open>is_shutdown\<close>, and \<open>get_or_insert\<close> in \<open>drop\<close>) are
  single steps that need the mutex to be free; the guard of \<open>run\<close>, which stays alive over several
  steps, is the flag \<open>held\<close>.  Nothing panics while it holds the mutex (\<open>run_panic_iff\<close>), so it is never
  poisoned and \<open>lock().unwrap()\<close> and \<open>wait(..).unwrap()\<close> do not panic.
\<close>

subsection \<open>Data\<close>

text \<open>What \<open>JoinHandle::join\<close> returns of a thread.\<close>

datatype exit = Returned | Unwound panic

text \<open>
  A spawned thread: inside its closure; at \<open>Context::drop\<close>; after the slot is filled, before
  \<open>notify_all\<close>; dropping the variables its closure has captured; finished.
\<close>

datatype 'b thread =
    Running 'b
  | Dropping exit
  | Notifying exit
  | Unwinding exit
  | Finished exit

text \<open>Where \<open>run\<close> is.  \<open>Run_Done\<close> carries the result and the remaining handles.\<close>

datatype 'b run_pc =
    Spawning "'b list"
  | Locking
  | Testing
  | Waiting
  | Joining nat
  | Run_Done exit "nat list"

record 'b WorkGroup =
  wg_fs :: "'b list"
  wg_data :: "nat option"

definition WorkGroup_new :: "'b WorkGroup" where
  "WorkGroup_new = \<lparr>wg_fs = [], wg_data = None\<rparr>"

definition WorkGroup_add :: "'b WorkGroup \<Rightarrow> 'b \<Rightarrow> 'b WorkGroup" where
  "WorkGroup_add wg f = wg\<lparr>wg_fs := wg_fs wg @ [f]\<rparr>"

record ('b, 's) grp =
  slot :: "nat option"
  held :: bool
  signalled :: bool
  threads :: "'b thread list"
  pc :: "'b run_pc"
  shared :: 's

text \<open>
  The closures: what they do on their own, possibly with the answer of \<open>ctx.is_shutdown()\<close>, what two
  of them do together (communication), and what dropping their captured variables does.
\<close>

record ('b, 's) bodies =
  body_step :: "nat \<Rightarrow> bool option \<Rightarrow> 'b \<Rightarrow> 's \<Rightarrow> 'b + exit \<Rightarrow> 's \<Rightarrow> bool"
  body_pair :: "nat \<Rightarrow> nat \<Rightarrow> 'b \<Rightarrow> 'b \<Rightarrow> 's \<Rightarrow> 'b \<Rightarrow> 'b \<Rightarrow> 's \<Rightarrow> bool"
  drop_captures :: "nat \<Rightarrow> 's \<Rightarrow> 's"

subsection \<open>Operations\<close>

definition is_shutdown :: "('b, 's) grp \<Rightarrow> bool" where
  "is_shutdown g \<longleftrightarrow> slot g \<noteq> None"

fun get_or_insert :: "nat option \<Rightarrow> nat \<Rightarrow> nat option" where
  "get_or_insert None i = Some i"
| "get_or_insert (Some j) i = Some j"

definition Context_drop :: "nat \<Rightarrow> exit \<Rightarrow> ('b, 's) grp \<Rightarrow> ('b, 's) grp" where
  "Context_drop i x g =
     g\<lparr>slot := get_or_insert (slot g) i, threads := (threads g)[i := Notifying x]\<rparr>"

text \<open>\<open>notify_all\<close> wakes \<open>run\<close> if it waits, and is lost otherwise.\<close>

definition notify_all :: "nat \<Rightarrow> exit \<Rightarrow> ('b, 's) grp \<Rightarrow> ('b, 's) grp" where
  "notify_all i x g =
     g\<lparr>threads := (threads g)[i := Unwinding x], signalled := signalled g \<or> pc g = Waiting\<rparr>"

text \<open>\<open>handles.remove(i)\<close> on the vector of all handles.\<close>

definition other_handles :: "nat \<Rightarrow> nat \<Rightarrow> nat list" where
  "other_handles n i = (let handles = [0..<n] in take i handles @ drop (Suc i) handles)"

definition start_run :: "'b WorkGroup \<Rightarrow> 's \<Rightarrow> ('b, 's) grp" where
  "start_run wg s = \<lparr>slot = wg_data wg, held = False, signalled = False, threads = [],
     pc = Spawning (wg_fs wg), shared = s\<rparr>"

fun continue_with :: "'b + exit \<Rightarrow> 'b thread" where
  "continue_with (Inl b) = Running b"
| "continue_with (Inr x) = Dropping x"

subsection \<open>Steps\<close>

text \<open>Steps of the closures.\<close>

inductive closure_step :: "('b, 's) bodies \<Rightarrow> ('b, 's) grp \<Rightarrow> ('b, 's) grp \<Rightarrow> bool" for B where
  compute: "i < length (threads g) \<Longrightarrow> threads g ! i = Running b \<Longrightarrow>
     body_step B i None b (shared g) r s \<Longrightarrow>
     closure_step B g (g\<lparr>threads := (threads g)[i := continue_with r], shared := s\<rparr>)"
| query: "i < length (threads g) \<Longrightarrow> threads g ! i = Running b \<Longrightarrow> \<not> held g \<Longrightarrow>
     body_step B i (Some (is_shutdown g)) b (shared g) r s \<Longrightarrow>
     closure_step B g (g\<lparr>threads := (threads g)[i := continue_with r], shared := s\<rparr>)"
| communicate: "i < length (threads g) \<Longrightarrow> j < length (threads g) \<Longrightarrow> i \<noteq> j \<Longrightarrow>
     threads g ! i = Running b \<Longrightarrow> threads g ! j = Running c \<Longrightarrow>
     body_pair B i j b c (shared g) b' c' s \<Longrightarrow>
     closure_step B g (g\<lparr>threads := (threads g)[i := Running b', j := Running c'], shared := s\<rparr>)"

text \<open>The end of a thread, after its closure has returned or unwound.\<close>

inductive exit_step :: "('b, 's) bodies \<Rightarrow> ('b, 's) grp \<Rightarrow> ('b, 's) grp \<Rightarrow> bool" for B where
  drop_context: "i < length (threads g) \<Longrightarrow> threads g ! i = Dropping x \<Longrightarrow> \<not> held g \<Longrightarrow>
     exit_step B g (Context_drop i x g)"
| notify: "i < length (threads g) \<Longrightarrow> threads g ! i = Notifying x \<Longrightarrow>
     exit_step B g (notify_all i x g)"
| release: "i < length (threads g) \<Longrightarrow> threads g ! i = Unwinding x \<Longrightarrow>
     exit_step B g (g\<lparr>threads := (threads g)[i := Finished x], shared := drop_captures B i (shared g)\<rparr>)"

text \<open>\<open>WorkGroup::run\<close>, as far as it does not panic.\<close>

inductive run_step :: "('b, 's) grp \<Rightarrow> ('b, 's) grp \<Rightarrow> bool" where
  spawn: "pc g = Spawning (f # fs) \<Longrightarrow>
     run_step g (g\<lparr>threads := threads g @ [Running f], pc := Spawning fs\<rparr>)"
| spawned: "pc g = Spawning [] \<Longrightarrow> run_step g (g\<lparr>pc := Locking\<rparr>)"
| lock: "pc g = Locking \<Longrightarrow> \<not> held g \<Longrightarrow> run_step g (g\<lparr>pc := Testing, held := True\<rparr>)"
| wait: "pc g = Testing \<Longrightarrow> slot g = None \<Longrightarrow>
     run_step g (g\<lparr>pc := Waiting, held := False, signalled := False\<rparr>)"
| wake: "pc g = Waiting \<Longrightarrow> signalled g \<Longrightarrow> run_step g (g\<lparr>pc := Locking\<rparr>)"
| found: "pc g = Testing \<Longrightarrow> slot g = Some i \<Longrightarrow> i < length (threads g) \<Longrightarrow>
     run_step g (g\<lparr>pc := Joining i\<rparr>)"
| join: "pc g = Joining i \<Longrightarrow> threads g ! i = Finished x \<Longrightarrow>
     run_step g (g\<lparr>pc := Run_Done x (other_handles (length (threads g)) i), held := False\<rparr>)"

text \<open>
  The panics of \<open>run\<close>: \<open>thread::spawn\<close> panics if the operating system refuses to create the thread,
  which may happen at every closure, and \<open>handles.remove\<close> if the slot is no index of a handle.  A panic
  of \<open>run\<close> unwinds the thread that called it, so it is no step of the group: the caller decides what
  follows (\<open>main\<close> ends, in \<open>Daemon\<close>).  A refused thread has no context yet, so nothing fills the slot.
\<close>

inductive run_panic :: "('b, 's) grp \<Rightarrow> panic \<Rightarrow> bool" where
  spawn_refused: "pc g = Spawning (f # fs) \<Longrightarrow> run_panic g Thread_Spawn"
| no_handle: "pc g = Testing \<Longrightarrow> slot g = Some i \<Longrightarrow> \<not> i < length (threads g) \<Longrightarrow> run_panic g Array_Index"

text \<open>\<open>Condvar::wait\<close> may also return without a notification.\<close>

inductive spurious_wakeup :: "('b, 's) grp \<Rightarrow> ('b, 's) grp \<Rightarrow> bool" where
  spurious: "pc g = Waiting \<Longrightarrow> spurious_wakeup g (g\<lparr>pc := Locking\<rparr>)"

definition group_step :: "('b, 's) bodies \<Rightarrow> ('b, 's) grp \<Rightarrow> ('b, 's) grp \<Rightarrow> bool" where
  "group_step B g g' \<longleftrightarrow> closure_step B g g' \<or> exit_step B g g' \<or> run_step g g' \<or> spurious_wakeup g g'"

text \<open>The steps that do not depend on the closures and on spurious wake-ups.\<close>

definition shutdown_step :: "('b, 's) bodies \<Rightarrow> ('b, 's) grp \<Rightarrow> ('b, 's) grp \<Rightarrow> bool" where
  "shutdown_step B g g' \<longleftrightarrow> exit_step B g g' \<or> run_step g g'"

inductive_cases closure_stepE: "closure_step B g g'"
inductive_cases exit_stepE: "exit_step B g g'"
inductive_cases run_stepE: "run_step g g'"
inductive_cases run_panicE: "run_panic g p"
inductive_cases spurious_wakeupE: "spurious_wakeup g g'"

section \<open>The invariant of a group\<close>

text \<open>A thread that has filled the slot, or found it filled.\<close>

fun past_drop :: "'b thread \<Rightarrow> bool" where
  "past_drop (Running _) = False"
| "past_drop (Dropping _) = False"
| "past_drop _ = True"

fun is_notifying :: "'b thread \<Rightarrow> bool" where
  "is_notifying (Notifying _) = True"
| "is_notifying _ = False"

fun is_running :: "'b thread \<Rightarrow> bool" where
  "is_running (Running _) = True"
| "is_running _ = False"

fun pending :: "'b run_pc \<Rightarrow> nat" where
  "pending (Spawning fs) = length fs"
| "pending _ = 0"

fun holds_guard :: "'b run_pc \<Rightarrow> bool" where
  "holds_guard Testing = True"
| "holds_guard (Joining _) = True"
| "holds_guard _ = False"

text \<open>The slot names a thread past its drop, and no thread is past its drop while it is empty.\<close>

definition slot_ok :: "('b, 's) grp \<Rightarrow> bool" where
  "slot_ok g \<longleftrightarrow> (case slot g of
      None \<Rightarrow> \<forall>j < length (threads g). \<not> past_drop (threads g ! j)
    | Some i \<Rightarrow> i < length (threads g) \<and> past_drop (threads g ! i))"

text \<open>No wake-up is lost: a filled slot has been signalled to a waiting \<open>run\<close> or is about to be.\<close>

definition wakeup_ok :: "('b, 's) grp \<Rightarrow> bool" where
  "wakeup_ok g \<longleftrightarrow> pc g = Waiting \<longrightarrow>
     (signalled g \<longrightarrow> slot g \<noteq> None) \<and>
     (slot g \<noteq> None \<longrightarrow> signalled g \<or> (\<exists>j < length (threads g). is_notifying (threads g ! j)))"

definition pc_ok :: "('b, 's) grp \<Rightarrow> bool" where
  "pc_ok g \<longleftrightarrow> (case pc g of
      Joining i \<Rightarrow> slot g = Some i
    | Run_Done x hs \<Rightarrow> (case slot g of
          None \<Rightarrow> False
        | Some i \<Rightarrow> threads g ! i = Finished x \<and> hs = other_handles (length (threads g)) i)
    | _ \<Rightarrow> True)"

definition group_ok :: "nat \<Rightarrow> ('b, 's) grp \<Rightarrow> bool" where
  "group_ok n g \<longleftrightarrow> length (threads g) + pending (pc g) = n \<and> (held g \<longleftrightarrow> holds_guard (pc g)) \<and>
     slot_ok g \<and> wakeup_ok g \<and> pc_ok g"

lemma get_or_insert_not_None [simp]: "get_or_insert x i \<noteq> None"
  by (cases x) simp_all

lemma continue_with_not_past [simp]:
  "\<not> past_drop (continue_with r)" "\<not> is_notifying (continue_with r)" "continue_with r \<noteq> Finished x"
  by (cases r; simp)+

lemma start_run_ok: "wg_data wg = None \<Longrightarrow> group_ok (length (wg_fs wg)) (start_run wg s)"
  by (simp add: group_ok_def start_run_def slot_ok_def wakeup_ok_def pc_ok_def)

lemmas group_ok_defs = group_ok_def slot_ok_def wakeup_ok_def pc_ok_def

lemma is_notifying_past: "is_notifying th \<Longrightarrow> past_drop th"
  by (cases th) simp_all

text \<open>A step that changes only threads before their drop, and leaves them there.\<close>

lemma group_ok_before_drop:
  assumes ok: "group_ok n g" and len: "length ths = length (threads g)"
    and same: "\<And>j. j < length ths \<Longrightarrow> past_drop (threads g ! j) \<or> past_drop (ths ! j) \<Longrightarrow> ths ! j = threads g ! j"
  shows "group_ok n (g\<lparr>threads := ths, shared := s\<rparr>)"
proof -
  from ok have slot: "slot_ok g" and wakeup: "wakeup_ok g" and run: "pc_ok g"
    by (simp_all add: group_ok_def)
  have at_slot: "i < length ths \<and> ths ! i = threads g ! i" if "slot g = Some i" for i
    using slot that len same [of i] by (simp add: slot_ok_def)
  have "slot_ok (g\<lparr>threads := ths, shared := s\<rparr>)"
  proof (cases "slot g")
    case (Some i)
    then show ?thesis using slot at_slot [OF Some] by (simp add: slot_ok_def)
  qed (use slot len same in \<open>auto simp: slot_ok_def\<close>)
  moreover have "wakeup_ok (g\<lparr>threads := ths, shared := s\<rparr>)"
  proof -
    have "is_notifying (threads g ! j) \<Longrightarrow> j < length (threads g) \<Longrightarrow> is_notifying (ths ! j)" for j
      using same [of j] len is_notifying_past [of "threads g ! j"] by simp
    with wakeup len show ?thesis by (auto simp: wakeup_ok_def)
  qed
  moreover have "pc_ok (g\<lparr>threads := ths, shared := s\<rparr>)"
    using run len at_slot by (cases "pc g") (auto simp: pc_ok_def split: option.splits)
  ultimately show ?thesis using ok len by (simp add: group_ok_def)
qed

lemma closure_step_ok:
  assumes "group_ok n g" "closure_step B g g'"
  shows "group_ok n g'"
  using assms(2)
  by cases (auto intro!: group_ok_before_drop [OF assms(1)] simp: nth_list_update split: if_splits)

lemma exit_step_ok:
  assumes "group_ok n g" "exit_step B g g'"
  shows "group_ok n g'"
proof -
  have base: "length (threads g') + pending (pc g') = n" "held g' \<longleftrightarrow> holds_guard (pc g')"
    using assms by (auto simp: group_ok_def Context_drop_def notify_all_def elim: exit_stepE)
  have "slot_ok g'"
    using assms(2,1)
    by cases (auto simp: group_ok_def slot_ok_def Context_drop_def notify_all_def nth_list_update
        split: option.splits if_splits)
  moreover have "wakeup_ok g'"
    using assms(2,1)
  proof cases
    case (drop_context i x)
    then show ?thesis
      by (auto simp: wakeup_ok_def Context_drop_def nth_list_update)
  next
    case (notify i x)
    then show ?thesis using assms(1)
      by (force simp: group_ok_def wakeup_ok_def slot_ok_def notify_all_def split: option.splits)
  next
    case (release i x)
    then have "is_notifying ((threads g)[i := Finished x] ! j) \<longleftrightarrow> is_notifying (threads g ! j)" for j
      by (cases "j = i") auto
    with release assms(1) show ?thesis by (simp add: group_ok_def wakeup_ok_def)
  qed
  moreover have "pc_ok g'"
    using assms(2,1)
    by cases (auto simp: group_ok_def pc_ok_def Context_drop_def notify_all_def nth_list_update
        split: run_pc.splits option.splits)
  ultimately show ?thesis using base by (simp add: group_ok_def)
qed

lemma run_step_ok:
  assumes "group_ok n g" "run_step g g'"
  shows "group_ok n g'"
proof -
  have base: "length (threads g') + pending (pc g') = n" "held g' \<longleftrightarrow> holds_guard (pc g')"
    using assms by (auto simp: group_ok_def elim: run_stepE)
  have "slot_ok g'"
    using assms(2,1) by cases (auto simp: group_ok_def slot_ok_def nth_append split: option.splits)
  moreover have "wakeup_ok g'"
    using assms(2,1) by cases (auto simp: group_ok_def wakeup_ok_def)
  moreover have "pc_ok g'"
    using assms(2,1) by cases (auto simp: group_ok_def pc_ok_def slot_ok_def)
  ultimately show ?thesis using base by (simp add: group_ok_def)
qed

lemma spurious_wakeup_ok: "group_ok n g \<Longrightarrow> spurious_wakeup g g' \<Longrightarrow> group_ok n g'"
  by (elim spurious_wakeupE) (simp add: group_ok_def slot_ok_def wakeup_ok_def pc_ok_def split: option.splits)

lemmas step_oks = closure_step_ok exit_step_ok run_step_ok spurious_wakeup_ok

text \<open>Under the invariant a panic of \<open>run\<close> is a refused thread.\<close>

lemma run_panic_iff: "group_ok n g \<Longrightarrow> run_panic g p \<longleftrightarrow> p = Thread_Spawn \<and> length (threads g) < n"
proof
  show "group_ok n g \<Longrightarrow> run_panic g p \<Longrightarrow> p = Thread_Spawn \<and> length (threads g) < n"
    by (elim run_panicE) (auto simp: group_ok_def slot_ok_def)
  assume "group_ok n g" "p = Thread_Spawn \<and> length (threads g) < n"
  then obtain f fs where "pc g = Spawning (f # fs)"
    by (cases "pc g") (auto simp: group_ok_def Suc_le_length_iff less_eq_Suc_le)
  then show "run_panic g p"
    using \<open>p = Thread_Spawn \<and> _\<close> by (simp add: run_panic.spawn_refused)
qed

text \<open>A group that is about to run \<open>n\<close> closures.\<close>

definition group_init :: "nat \<Rightarrow> ('b, 's) grp \<Rightarrow> bool" where
  "group_init n g \<longleftrightarrow> (\<exists>wg s. wg_data wg = None \<and> length (wg_fs wg) = n \<and> g = start_run wg s)"

interpretation wg: inductive_invariant "group_init n" "group_step B" "group_ok n" for n B
  by unfold_locales (auto simp: group_init_def group_step_def intro: start_run_ok step_oks)

text \<open>
  The threads that are spawned and those still to be: the spawning itself changes nothing here, and
  every other step changes one thread, or two that communicate.
\<close>

definition all_threads :: "('b, 's) grp \<Rightarrow> 'b thread list" where
  "all_threads g = threads g @ (case pc g of Spawning fs \<Rightarrow> map Running fs | _ \<Rightarrow> [])"

lemma length_all_threads: "group_ok n g \<Longrightarrow> length (all_threads g) = n"
  by (cases "pc g") (simp_all add: group_ok_def all_threads_def)

lemma all_threads_spawned: "group_ok n g \<Longrightarrow> n \<le> length (threads g) \<Longrightarrow> all_threads g = threads g"
  using length_all_threads [of n g] by (auto simp: all_threads_def split: run_pc.splits)

lemma nth_all_threads [simp]: "i < length (threads g) \<Longrightarrow> all_threads g ! i = threads g ! i"
  by (simp add: all_threads_def nth_append)

lemma all_threads_update [simp]:
  "i < length (threads g) \<Longrightarrow> pc g' = pc g \<Longrightarrow> threads g' = (threads g)[i := th] \<Longrightarrow>
   all_threads g' = (all_threads g)[i := th]"
  by (simp add: all_threads_def list_update_append1)

lemma run_step_all_threads:
  "run_step g g' \<Longrightarrow> all_threads g' = all_threads g \<and> shared g' = shared g"
  by (elim run_stepE) (simp_all add: all_threads_def)

lemma spurious_all_threads:
  "spurious_wakeup g g' \<Longrightarrow> all_threads g' = all_threads g \<and> shared g' = shared g"
  by (elim spurious_wakeupE) (simp add: all_threads_def)

section \<open>Progress of a group\<close>

fun run_fuel :: "nat option \<Rightarrow> 'b run_pc \<Rightarrow> nat" where
  "run_fuel _ (Spawning fs) = 8 + length fs"
| "run_fuel None Locking = 7"
| "run_fuel None Testing = 6"
| "run_fuel None Waiting = 5"
| "run_fuel (Some _) Waiting = 4"
| "run_fuel (Some _) Locking = 3"
| "run_fuel (Some _) Testing = 2"
| "run_fuel _ (Joining _) = 1"
| "run_fuel _ _ = 0"

text \<open>The steps a thread has left, with a weight for those that are inside their closures.\<close>

fun thread_fuel :: "('b \<Rightarrow> nat) \<Rightarrow> 'b thread \<Rightarrow> nat" where
  "thread_fuel wt (Running b) = wt b"
| "thread_fuel wt (Dropping _) = 3"
| "thread_fuel wt (Notifying _) = 2"
| "thread_fuel wt (Unwinding _) = 1"
| "thread_fuel wt (Finished _) = 0"

definition group_fuel :: "('b \<Rightarrow> nat) \<Rightarrow> ('b, 's) grp \<Rightarrow> nat" where
  "group_fuel wt g = run_fuel (slot g) (pc g) + sum_list (map (thread_fuel wt) (all_threads g))"

text \<open>Some thread has left its closure; \<open>run\<close> has returned.\<close>

definition some_exit :: "('b, 's) grp \<Rightarrow> bool" where
  "some_exit g \<longleftrightarrow> (\<exists>i < length (threads g). \<not> is_running (threads g ! i))"

definition run_done :: "('b, 's) grp \<Rightarrow> bool" where
  "run_done g \<longleftrightarrow> (\<exists>x hs. pc g = Run_Done x hs)"

lemma sum_list_map_update:
  fixes f :: "'a \<Rightarrow> nat"
  shows "i < length xs \<Longrightarrow> sum_list (map f (xs[i := y])) + f (xs ! i) = sum_list (map f xs) + f y"
  by (induction xs arbitrary: i) (auto split: nat.splits)

lemma run_fuel_get_or_insert:
  "run_fuel (get_or_insert x i) p \<le> run_fuel x p"
  by (cases x; cases p) simp_all

lemma all_threads_fuel:
  assumes "i < length (threads g)" "all_threads g' = (all_threads g)[i := th]"
    and "run_fuel (slot g') (pc g') \<le> run_fuel (slot g) (pc g)"
    and "thread_fuel wt th < thread_fuel wt (all_threads g ! i)"
  shows "group_fuel wt g' < group_fuel wt g"
proof -
  have "i < length (all_threads g)" using assms(1) by (simp add: all_threads_def)
  from sum_list_map_update [OF this, of "thread_fuel wt" th] show ?thesis
    using assms(2-4) by (simp add: group_fuel_def)
qed

lemma exit_step_fuel:
  assumes "exit_step B g g'"
  shows "group_fuel wt g' < group_fuel wt g"
  using assms
proof cases
  case (drop_context i x)
  then show ?thesis
    by (intro all_threads_fuel [of i g g' "Notifying x"]) (simp_all add: Context_drop_def run_fuel_get_or_insert)
next
  case (notify i x)
  then show ?thesis
    by (intro all_threads_fuel [of i g g' "Unwinding x"]) (simp_all add: notify_all_def)
next
  case (release i x)
  then show ?thesis
    by (intro all_threads_fuel [of i g g' "Finished x"]) simp_all
qed

lemma run_step_fuel:
  assumes "group_ok n g" "run_step g g'"
  shows "group_fuel wt g' < group_fuel wt g"
proof -
  have "run_fuel (slot g') (pc g') < run_fuel (slot g) (pc g)"
    using assms(2)
  proof cases
    case wake
    then show ?thesis using assms(1) by (auto simp: group_ok_def wakeup_ok_def)
  next
    case spawned
    then show ?thesis by (cases "slot g") simp_all
  next
    case lock
    then show ?thesis by (cases "slot g") simp_all
  qed simp_all
  then show ?thesis using run_step_all_threads [OF assms(2)] by (simp add: group_fuel_def)
qed

lemma shutdown_step_fuel: "group_ok n g \<Longrightarrow> shutdown_step B g g' \<Longrightarrow> group_fuel wt g' < group_fuel wt g"
  using exit_step_fuel run_step_fuel by (auto simp: shutdown_step_def)

lemma run_not_stuck:
  assumes ok: "group_ok n g" and exit: "some_exit g" and not_done: "\<not> run_done g"
  shows "\<exists>g'. shutdown_step B g g'"
proof (cases "pc g")
  case (Spawning fs)
  then show ?thesis by (cases fs) (auto simp: shutdown_step_def intro: run_step.intros)
next
  case Locking
  then show ?thesis using ok by (auto simp: shutdown_step_def group_ok_def intro: run_step.lock)
next
  case Testing
  then show ?thesis using ok
    by (cases "slot g") (auto simp: shutdown_step_def group_ok_def slot_ok_def intro: run_step.intros)
next
  case Waiting
  obtain i where i: "i < length (threads g)" "\<not> is_running (threads g ! i)"
    using exit by (auto simp: some_exit_def)
  show ?thesis
  proof (cases "slot g")
    case None
    with ok Waiting i have "\<not> held g" "\<exists>x. threads g ! i = Dropping x"
      by (cases "threads g ! i"; auto simp: group_ok_def slot_ok_def)+
    with i show ?thesis by (auto simp: shutdown_step_def intro: exit_step.drop_context)
  next
    case (Some k)
    with ok Waiting consider "signalled g" | j where "j < length (threads g)" "is_notifying (threads g ! j)"
      by (auto simp: group_ok_def wakeup_ok_def)
    then show ?thesis
    proof cases
      case 1
      with Waiting show ?thesis by (auto simp: shutdown_step_def intro: run_step.wake)
    next
      case 2
      then obtain x where "threads g ! j = Notifying x" by (cases "threads g ! j") auto
      with 2 show ?thesis by (auto simp: shutdown_step_def intro: exit_step.notify)
    qed
  qed
next
  case (Joining i)
  with ok have "i < length (threads g)" "past_drop (threads g ! i)"
    by (auto simp: group_ok_def pc_ok_def slot_ok_def)
  with Joining show ?thesis
    by (cases "threads g ! i") (auto simp: shutdown_step_def intro: run_step.join exit_step.intros)
next
  case (Run_Done x hs)
  with not_done show ?thesis by (simp add: run_done_def)
qed

lemma shutdown_step_not_running:
  assumes "shutdown_step B g g'" "i < length (threads g)" "\<not> is_running (threads g ! i)"
  shows "i < length (threads g') \<and> \<not> is_running (threads g' ! i)"
  using assms unfolding shutdown_step_def
  by (elim disjE exit_stepE run_stepE)
    (auto simp: Context_drop_def notify_all_def nth_list_update nth_append)

lemma some_exit_step: "some_exit g \<Longrightarrow> shutdown_step B g g' \<Longrightarrow> some_exit g'"
  unfolding some_exit_def using shutdown_step_not_running by blast

interpretation wg: bounded_progress "group_init n" "group_step B" "group_ok n" "shutdown_step B"
    some_exit run_done "group_fuel (\<lambda>_. 0)" for n B
proof unfold_locales
  fix g g' :: "('a, 'b) grp"
  show "shutdown_step B g g' \<Longrightarrow> group_step B g g'"
    by (auto simp: shutdown_step_def group_step_def)
  show "some_exit g \<Longrightarrow> shutdown_step B g g' \<Longrightarrow> some_exit g'"
    by (rule some_exit_step)
  show "group_ok n g \<Longrightarrow> some_exit g \<Longrightarrow> shutdown_step B g g' \<Longrightarrow>
      group_fuel (\<lambda>_. 0) g' < group_fuel (\<lambda>_. 0) g"
    by (rule shutdown_step_fuel)
  show "group_ok n g \<Longrightarrow> some_exit g \<Longrightarrow> \<not> run_done g \<Longrightarrow> \<exists>g'. shutdown_step B g g'"
    by (rule run_not_stuck)
qed

lemma group_fuel_le:
  assumes "group_ok n g" "\<And>b. wt b \<le> m" "3 \<le> m"
  shows "group_fuel wt g \<le> 8 + n + m * n"
proof -
  have "thread_fuel wt th \<le> m" for th using assms(2,3) by (cases th) simp_all
  then have "sum_list (map (thread_fuel wt) ths) \<le> m * length ths" for ths
    by (induction ths) (auto intro: add_mono)
  moreover have "run_fuel (slot g) (pc g) \<le> 8 + n"
    using assms(1) by (cases "slot g"; cases "pc g") (simp_all add: group_ok_def)
  ultimately show ?thesis
    unfolding group_fuel_def using length_all_threads [OF assms(1)] by (metis add_mono)
qed

section \<open>The first exit\<close>

fun exit_of :: "'b thread \<Rightarrow> exit option" where
  "exit_of (Running _) = None"
| "exit_of (Dropping x) = Some x"
| "exit_of (Notifying x) = Some x"
| "exit_of (Unwinding x) = Some x"
| "exit_of (Finished x) = Some x"

lemma group_step_slot: "group_step B g g' \<Longrightarrow> slot g = Some i \<Longrightarrow> slot g' = Some i"
  unfolding group_step_def
  by (elim disjE closure_stepE exit_stepE run_stepE spurious_wakeupE)
    (simp_all add: Context_drop_def notify_all_def)

lemma group_step_exit:
  "group_step B g g' \<Longrightarrow> i < length (threads g) \<Longrightarrow> exit_of (threads g ! i) = Some x \<Longrightarrow>
   i < length (threads g') \<and> exit_of (threads g' ! i) = Some x"
  unfolding group_step_def
  by (elim disjE closure_stepE exit_stepE run_stepE spurious_wakeupE)
    (auto simp: Context_drop_def notify_all_def nth_list_update nth_append)

lemma group_steps_keep:
  assumes "(group_step B)\<^sup>*\<^sup>* g g'"
  shows "slot g = Some i \<Longrightarrow> slot g' = Some i"
    and "i < length (threads g) \<Longrightarrow> exit_of (threads g ! i) = Some x \<Longrightarrow>
      i < length (threads g') \<and> exit_of (threads g' ! i) = Some x"
  using assms by (induction rule: rtranclp_induct) (auto dest: group_step_slot group_step_exit)

lemma past_drop_exit: "past_drop th \<Longrightarrow> \<exists>x. exit_of th = Some x"
  by (cases th) simp_all

lemma run_done_state:
  assumes "group_ok n g" "pc g = Run_Done x hs"
  obtains i where "i < n" "length (threads g) = n" "slot g = Some i" "threads g ! i = Finished x"
    "hs = other_handles n i"
  using assms by (auto simp: group_ok_def pc_ok_def slot_ok_def split: option.splits)

lemma only_exit_in_slot:
  assumes "group_ok n g" "i < length (threads g)" "past_drop (threads g ! i)"
    and "\<forall>j < length (threads g). j \<noteq> i \<longrightarrow> \<not> past_drop (threads g ! j)"
  shows "slot g = Some i"
  using assms by (auto simp: group_ok_def slot_ok_def split: option.splits)

lemma exit_step_change:
  assumes "exit_step B g g'"
  obtains i x th w where "i < length (threads g)" "exit_of (all_threads g ! i) = Some x" "exit_of th = Some x"
    "all_threads g' = (all_threads g)[i := th]" "shared g' = w" "w = shared g \<or> w = drop_captures B i (shared g)"
  using assms
proof cases
  case (drop_context i x)
  then show ?thesis by (intro that [of i x "Notifying x"]) (auto simp: Context_drop_def)
next
  case (notify i x)
  then show ?thesis by (intro that [of i x "Unwinding x"]) (auto simp: notify_all_def)
next
  case (release i x)
  then show ?thesis by (intro that [of i x "Finished x"]) auto
qed

lemma closure_step_change:
  assumes "closure_step B g g'"
  obtains (body) i b q r where "i < length (threads g)" "all_threads g ! i = Running b"
      "body_step B i q b (shared g) r (shared g')" "all_threads g' = (all_threads g)[i := continue_with r]"
  | (pair) i j b c b' c' where "i < length (threads g)" "j < length (threads g)" "i \<noteq> j"
      "all_threads g ! i = Running b" "all_threads g ! j = Running c"
      "body_pair B i j b c (shared g) b' c' (shared g')"
      "all_threads g' = (all_threads g)[i := Running b', j := Running c']"
  using assms
proof cases
  case (compute i b r s)
  then show ?thesis by (intro body [of i b None r]) auto
next
  case (query i b r s)
  then show ?thesis by (intro body [of i b "Some (is_shutdown g)" r]) auto
next
  case (communicate i j b c b' c' s)
  then show ?thesis
    by (intro pair [of i j b c b' c']) (simp_all add: all_threads_def list_update_append1 nth_append)
qed

text \<open>What a returned \<open>run\<close> and a finished thread keep.\<close>

lemma group_step_done: "group_step B g g' \<Longrightarrow> pc g = Run_Done x hs \<Longrightarrow> pc g' = Run_Done x hs"
  unfolding group_step_def
  by (elim disjE closure_stepE exit_stepE run_stepE spurious_wakeupE)
    (simp_all add: Context_drop_def notify_all_def)

lemma group_step_finished:
  "group_step B g g' \<Longrightarrow> j < length (threads g) \<Longrightarrow> threads g ! j = Finished x \<Longrightarrow> threads g' ! j = Finished x"
  unfolding group_step_def
  by (elim disjE closure_stepE exit_stepE run_stepE spurious_wakeupE)
    (auto simp: Context_drop_def notify_all_def nth_list_update nth_append)

lemma spawn_all:
  "pc g = Spawning fs \<Longrightarrow>
   (group_step B)\<^sup>*\<^sup>* g (g\<lparr>threads := threads g @ map Running fs, pc := Spawning []\<rparr>)"
proof (induction fs arbitrary: g)
  case (Cons f fs)
  then have "group_step B g (g\<lparr>threads := threads g @ [Running f], pc := Spawning fs\<rparr>)"
    by (simp add: group_step_def run_step.spawn)
  then show ?case
    using Cons.IH [of "g\<lparr>threads := threads g @ [Running f], pc := Spawning fs\<rparr>"]
    by (simp add: converse_rtranclp_into_rtranclp)
next
  case Nil
  then have "g\<lparr>threads := threads g @ map Running [], pc := Spawning []\<rparr> = g" by (cases g) simp
  then show ?case by simp
qed

text \<open>Once a thread has filled the empty slot, \<open>run\<close> can return, and then with that thread's exit.\<close>

lemma slot_decides_run:
  assumes "group_ok n g" "slot g = Some i" "exit_of (threads g ! i) = Some x"
  shows "\<exists>g' hs. (group_step B)\<^sup>*\<^sup>* g g' \<and> pc g' = Run_Done x hs"
proof -
  have i: "i < length (threads g)" using assms(1,2) by (simp add: group_ok_def slot_ok_def)
  then have "some_exit g"
    using assms(3) by (auto simp: some_exit_def intro!: exI [of _ i] elim: is_running.elims)
  then obtain g' where g': "(shutdown_step B)\<^sup>*\<^sup>* g g'" "run_done g'"
    using wg.reaches_goal [OF assms(1)] by blast
  then have steps: "(group_step B)\<^sup>*\<^sup>* g g'"
    by (intro wg.internal_steps)
  obtain y hs where y: "pc g' = Run_Done y hs" using g'(2) by (auto simp: run_done_def)
  have "group_ok n g'" using wg.steps_inv [OF steps assms(1)] .
  then obtain k where "slot g' = Some k" "threads g' ! k = Finished y" using y by (auto elim: run_done_state)
  with group_steps_keep [OF steps] assms(2,3) i have "y = x" by fastforce
  with steps y show ?thesis by blast
qed

lemma set_other_handles: "set (other_handles n i) = {..<n} - {i}"
  by (cases "i < n") (auto simp: other_handles_def take_upt drop_upt)

lemma distinct_other_handles: "distinct (other_handles n i)"
  by (cases "i < n") (auto simp: other_handles_def take_upt drop_upt)

lemma length_other_handles: "length (other_handles n i) \<le> n"
  by (cases "i < n") (auto simp: other_handles_def take_upt drop_upt)

text \<open>A group with one closure that returns at once, as in the test \<open>test_run_one\<close>, run to its end.\<close>

definition returning :: "(unit, unit) bodies" where
  "returning = \<lparr>body_step = (\<lambda>i q b s r s'. q = None \<and> r = Inr Returned),
     body_pair = (\<lambda>_ _ _ _ _ _ _ _. False), drop_captures = (\<lambda>_ s. s)\<rparr>"

definition one_thread :: "nat option \<Rightarrow> unit thread list \<Rightarrow> bool \<Rightarrow> unit run_pc \<Rightarrow> (unit, unit) grp" where
  "one_thread k ths h p = \<lparr>slot = k, held = h, signalled = False, threads = ths, pc = p, shared = ()\<rparr>"

lemma one_thread_dropped:
  "reachable (group_init 1) (group_step returning) (one_thread (Some 0) [Notifying Returned] False Locking)"
proof -
  let ?R = "reachable (group_init 1) (group_step returning)"
  have "group_init 1 (one_thread None [] False (Spawning [()]))"
    unfolding group_init_def
    by (rule exI [of _ "WorkGroup_add WorkGroup_new ()"])
      (simp add: start_run_def one_thread_def WorkGroup_add_def WorkGroup_new_def)
  then have "?R (one_thread None [] False (Spawning [()]))" by (rule reach_init)
  then have "?R (one_thread None [Running ()] False (Spawning []))"
    by (rule reach_step) (use run_step.spawn [of "one_thread None [] False (Spawning [()])"] in
      \<open>simp add: group_step_def one_thread_def\<close>)
  then have "?R (one_thread None [Running ()] False Locking)"
    by (rule reach_step) (use run_step.spawned [of "one_thread None [Running ()] False (Spawning [])"] in
      \<open>simp add: group_step_def one_thread_def\<close>)
  then have "?R (one_thread None [Dropping Returned] False Locking)"
    by (rule reach_step) (use closure_step.compute [of 0 "one_thread None [Running ()] False Locking" "()"
      returning "Inr Returned" "()"] in \<open>simp add: group_step_def one_thread_def returning_def\<close>)
  then show ?thesis
    by (rule reach_step) (use exit_step.drop_context [of 0 "one_thread None [Dropping Returned] False Locking"
      Returned returning] in \<open>simp add: group_step_def one_thread_def Context_drop_def\<close>)
qed

lemma one_thread_joined:
  "(group_step returning)\<^sup>*\<^sup>* (one_thread (Some 0) [Notifying Returned] False Locking)
     (one_thread (Some 0) [Finished Returned] False (Run_Done Returned []))"
proof -
  let ?S = "group_step returning"
  have 1: "?S (one_thread (Some 0) [Notifying Returned] False Locking)
      (one_thread (Some 0) [Unwinding Returned] False Locking)"
    using exit_step.notify [of 0 "one_thread (Some 0) [Notifying Returned] False Locking" Returned returning]
    by (simp add: group_step_def one_thread_def notify_all_def)
  have 2: "?S (one_thread (Some 0) [Unwinding Returned] False Locking)
      (one_thread (Some 0) [Finished Returned] False Locking)"
    using exit_step.release [of 0 "one_thread (Some 0) [Unwinding Returned] False Locking" Returned returning]
    by (simp add: group_step_def one_thread_def returning_def)
  have 3: "?S (one_thread (Some 0) [Finished Returned] False Locking)
      (one_thread (Some 0) [Finished Returned] True Testing)"
    using run_step.lock [of "one_thread (Some 0) [Finished Returned] False Locking"]
    by (simp add: group_step_def one_thread_def)
  have 4: "?S (one_thread (Some 0) [Finished Returned] True Testing)
      (one_thread (Some 0) [Finished Returned] True (Joining 0))"
    using run_step.found [of "one_thread (Some 0) [Finished Returned] True Testing" 0]
    by (simp add: group_step_def one_thread_def)
  have "?S (one_thread (Some 0) [Finished Returned] True (Joining 0))
      (one_thread (Some 0) [Finished Returned] False (Run_Done Returned []))"
    using run_step.join [of "one_thread (Some 0) [Finished Returned] True (Joining 0)" 0 Returned]
    by (simp add: group_step_def one_thread_def other_handles_def)
  with 1 2 3 4 show ?thesis by (meson converse_rtranclp_into_rtranclp r_into_rtranclp)
qed

section \<open>Properties of work groups\<close>

text \<open>
  C7. \<open>run\<close> returns the result of the thread that exited first: if at some moment thread \<open>i\<close> is the
  only one that has dropped its context, then \<open>run\<close>, whenever it returns, returns with which of return
  and panic thread \<open>i\<close> ended, and with the handles of all the other threads in order.
\<close>

theorem first_exit_wins:
  assumes "reachable (group_init n) (group_step B) g"
    and "i < length (threads g)" "past_drop (threads g ! i)"
    and "\<forall>j < length (threads g). j \<noteq> i \<longrightarrow> \<not> past_drop (threads g ! j)"
    and "(group_step B)\<^sup>*\<^sup>* g g'" "pc g' = Run_Done x hs"
  shows "exit_of (threads g ! i) = Some x \<and> threads g' ! i = Finished x \<and> hs = other_handles n i"
proof -
  have ok: "group_ok n g" using assms(1) by (rule wg.reachable_inv)
  then have ok': "group_ok n g'" using assms(5) by (blast intro: wg.steps_inv)
  have "slot g' = Some i"
    using group_steps_keep(1) [OF assms(5)] only_exit_in_slot [OF ok assms(2-4)] by blast
  with run_done_state [OF ok' assms(6)] have at_i: "threads g' ! i = Finished x" "hs = other_handles n i"
    by force+
  obtain y where y: "exit_of (threads g ! i) = Some y" using past_drop_exit [OF assms(3)] ..
  then have "exit_of (threads g' ! i) = Some y" using group_steps_keep(2) [OF assms(5,2)] by blast
  with at_i y show ?thesis by simp
qed

theorem first_exit_wins_witness:
  "exit_of (threads (one_thread (Some 0) [Notifying Returned] False Locking) ! 0) = Some Returned \<and>
   threads (one_thread (Some 0) [Finished Returned] False (Run_Done Returned [])) ! 0 = Finished Returned \<and>
   [] = other_handles 1 0"
  by (rule first_exit_wins [OF one_thread_dropped _ _ _ one_thread_joined]) (simp_all add: one_thread_def)

text \<open>
  C14. \<open>run\<close> can panic only while threads are still to be spawned, and then only because the system
  refuses one; it never waits on a lost wake-up and never deadlocks with the thread it joins.  In every
  reachable state: the panics of \<open>run\<close> are exactly that of \<open>thread::spawn\<close> while there are fewer
  threads than closures (so \<open>handles.remove\<close> always finds its handle); if \<open>run\<close> waits on the condition
  variable while the slot is filled then it has been woken or some thread is about to notify it; and if
  \<open>run\<close> joins thread \<open>i\<close> while holding the mutex then thread \<open>i\<close> is beyond its last use of the mutex.
\<close>

theorem run_safe:
  assumes "reachable (group_init n) (group_step B) g"
  shows "(\<forall>p. run_panic g p \<longleftrightarrow> p = Thread_Spawn \<and> length (threads g) < n) \<and>
    (pc g = Waiting \<and> slot g \<noteq> None \<longrightarrow>
       signalled g \<or> (\<exists>j < length (threads g). is_notifying (threads g ! j))) \<and>
    (\<forall>i. pc g = Joining i \<longrightarrow> held g \<and> i < length (threads g) \<and> past_drop (threads g ! i))"
proof -
  have ok: "group_ok n g" using assms by (rule wg.reachable_inv)
  then have "pc g = Waiting \<and> slot g \<noteq> None \<longrightarrow>
      signalled g \<or> (\<exists>j < length (threads g). is_notifying (threads g ! j))"
    "\<forall>i. pc g = Joining i \<longrightarrow> held g \<and> i < length (threads g) \<and> past_drop (threads g ! i)"
    by (auto simp: group_ok_def pc_ok_def wakeup_ok_def slot_ok_def)
  with run_panic_iff [OF ok] show ?thesis by simp
qed

theorem run_safe_witness:
  "\<forall>p. \<not> run_panic (one_thread (Some 0) [Notifying Returned] False Locking) p"
  using run_safe [OF one_thread_dropped] by (simp add: one_thread_def)

text \<open>
  C8. \<open>run\<close> returns once a thread has left its closure, by a return or a panic: the remaining steps of
  \<open>run\<close> and of the threads that have left their closures number at most \<open>8 + 4 n\<close>, in any order, and
  when none of them is possible any more \<open>run\<close> has returned.  It does not need the other closures.
  (Where the system refuses a thread \<open>run\<close> panics instead, and takes no further step.)
\<close>

theorem run_returns:
  assumes "reachable (group_init n) (group_step B) g" "some_exit g"
    and "(shutdown_step B ^^ k) g g'"
  shows "k \<le> 8 + 4 * n \<and> ((\<nexists>g''. shutdown_step B g' g'') \<longrightarrow> run_done g')"
proof -
  have ok: "group_ok n g" using assms(1) by (rule wg.reachable_inv)
  then have "k \<le> group_fuel (\<lambda>_. 0) g" using wg.internal_run [OF assms(3) ok assms(2)] by simp
  with group_fuel_le [OF ok, of "\<lambda>_. 0" 3] wg.stuck_is_goal [OF assms(3) ok assms(2)] show ?thesis by auto
qed

theorem run_returns_witness:
  "\<exists>g'. shutdown_step returning (one_thread (Some 0) [Notifying Returned] False Locking) g'"
proof -
  have "some_exit (one_thread (Some 0) [Notifying Returned] False Locking)"
    by (simp add: some_exit_def one_thread_def)
  from run_returns [OF one_thread_dropped this, of 0] show ?thesis
    by (auto simp: run_done_def one_thread_def)
qed

end
