(* ===== verification/Closures.thy ===== *)
theory Closures
  imports Connection Work_Group
begin

section \<open>The threads of the daemon\<close>

text \<open>
  Model of the closures that \<open>spawn_workers\<close> and \<open>spawn_acceptor\<close> of \<open>src/main.rs\<close> give to the work
  group, and of the channel between them.  Connections and errors of \<open>accept\<close>, and the moment a
  hand-over times out, come from the environment.  The ledger of the model records which connections
  were accepted, served (with what was done to them) and abandoned.
\<close>

subsection \<open>The channel\<close>

text \<open>
  \<open>crossbeam_channel::bounded(0)\<close>: when \<open>recv\<close> fails, when \<open>send_timeout\<close> reports a disconnected
  channel, and to which receiver a value may be handed over; as functions of the live sender and the
  live receivers.  The documentation: \<open>recv\<close> fails if all senders are dropped and no value is left (a
  channel of capacity zero never holds one), a send fails as disconnected if all receivers are
  dropped, and a value is handed over to a receiver of the channel that waits for it.
\<close>

record crossbeam =
  cb_recv_err :: "bool \<Rightarrow> bool"
  cb_send_disconnected :: "nat set \<Rightarrow> bool"
  cb_delivers :: "nat set \<Rightarrow> nat \<Rightarrow> bool"

definition crossbeam_law :: "crossbeam \<Rightarrow> bool" where
  "crossbeam_law cb \<longleftrightarrow> (\<forall>sender. cb_recv_err cb sender \<longleftrightarrow> \<not> sender) \<and>
     (\<forall>rxs. cb_send_disconnected cb rxs \<longleftrightarrow> rxs = {}) \<and>
     (\<forall>rxs i. cb_delivers cb rxs i \<longleftrightarrow> i \<in> rxs)"

definition rendezvous :: crossbeam where
  "rendezvous = \<lparr>cb_recv_err = Not, cb_send_disconnected = (\<lambda>rxs. rxs = {}), cb_delivers = (\<lambda>rxs i. i \<in> rxs)\<rparr>"

lemma rendezvous_law: "crossbeam_law rendezvous"
  by (simp add: crossbeam_law_def rendezvous_def)

subsection \<open>State\<close>

record world =
  tx_alive :: bool
  receivers :: "nat set"
  accepted :: "UnixStream list"
  abandoned :: "UnixStream list"
  served :: "(UnixStream \<times> event list) list"

text \<open>
  The states of the closures: a worker in \<open>rx.recv()\<close> or in \<open>handle_stream\<close>; the acceptor in
  \<open>listener.incoming()\<close>, before \<open>ctx.is_shutdown()\<close>, in \<open>tx.send_timeout\<close>, and after its loop.
\<close>

datatype body =
    Receiving
  | Serving UnixStream
  | Accepting
  | Checking "ErrorKind + UnixStream"
  | Sending UnixStream
  | Leaving

text \<open>What is fixed during a run: target, configuration, channel, and the behaviours of the libraries.\<close>

record setting =
  st_target :: target
  st_config :: Config
  st_channel :: crossbeam
  st_libs :: "libs set"

abbreviation workers :: "setting \<Rightarrow> nat" where
  "workers S \<equiv> unat (worker_count (st_config S))"

subsection \<open>The closures\<close>

inductive daemon_body ::
    "setting \<Rightarrow> bool option \<Rightarrow> body \<Rightarrow> world \<Rightarrow> body + exit \<Rightarrow> world \<Rightarrow> bool" for S where
  recv_closed: "cb_recv_err (st_channel S) (tx_alive w) \<Longrightarrow>
     daemon_body S None Receiving w (Inr Returned) w"
| serve: "lib \<in> st_libs S \<Longrightarrow> handle_stream (st_target S) lib (st_config S) s = (ev, Ok ()) \<Longrightarrow>
     daemon_body S None (Serving s) w (Inl Receiving) (w\<lparr>served := served w @ [(s, ev)]\<rparr>)"
| serve_panic: "lib \<in> st_libs S \<Longrightarrow> handle_stream (st_target S) lib (st_config S) s = (ev, Panic p) \<Longrightarrow>
     daemon_body S None (Serving s) w (Inr (Unwound p)) (w\<lparr>served := served w @ [(s, ev)]\<rparr>)"
| accept: "daemon_body S None Accepting w (Inl (Checking (Inr s))) (w\<lparr>accepted := accepted w @ [s]\<rparr>)"
| accept_fails: "daemon_body S None Accepting w (Inl (Checking (Inl e))) w"
| shutdown: "daemon_body S (Some True) (Checking (Inr s)) w (Inl Leaving) (w\<lparr>abandoned := abandoned w @ [s]\<rparr>)"
| shutdown_error: "daemon_body S (Some True) (Checking (Inl e)) w (Inl Leaving) w"
| hand_over: "daemon_body S (Some False) (Checking (Inr s)) w (Inl (Sending s)) w"
| accept_error: "daemon_body S (Some False) (Checking (Inl e)) w (Inl Leaving) w"
| send_timeout: "daemon_body S None (Sending s) w (Inl Leaving) (w\<lparr>abandoned := abandoned w @ [s]\<rparr>)"
| send_disconnected: "cb_send_disconnected (st_channel S) (receivers w) \<Longrightarrow>
     daemon_body S None (Sending s) w (Inl Leaving) (w\<lparr>abandoned := abandoned w @ [s]\<rparr>)"
| drop_tx: "daemon_body S None Leaving w (Inr Returned) (w\<lparr>tx_alive := False\<rparr>)"

text \<open>\<open>tx.send_timeout\<close> of the acceptor meets \<open>rx.recv()\<close> of a worker.\<close>

inductive daemon_pair :: "setting \<Rightarrow> nat \<Rightarrow> body \<Rightarrow> body \<Rightarrow> world \<Rightarrow> body \<Rightarrow> body \<Rightarrow> world \<Rightarrow> bool" for S where
  handed: "cb_delivers (st_channel S) (receivers w) j \<Longrightarrow>
     daemon_pair S j (Sending s) Receiving w Accepting (Serving s) w"

text \<open>The variables a closure captures: its receiver for a worker, the sender for the acceptor.\<close>

definition daemon_captures :: "setting \<Rightarrow> nat \<Rightarrow> world \<Rightarrow> world" where
  "daemon_captures S i w =
     (if i < workers S then w\<lparr>receivers := receivers w - {i}\<rparr> else w\<lparr>tx_alive := False\<rparr>)"

definition daemon_bodies :: "setting \<Rightarrow> (body, world) bodies" where
  "daemon_bodies S = \<lparr>body_step = (\<lambda>_. daemon_body S), body_pair = (\<lambda>_. daemon_pair S),
     drop_captures = daemon_captures S\<rparr>"

inductive_cases daemon_bodyE: "daemon_body S q b w r w'"
inductive_cases daemon_pairE: "daemon_pair S j b c w b' c' w'"

end
