(* ===== verification/Startup.thy ===== *)
theory Startup
  imports Closures "HOL-Library.Sublist"
begin

section \<open>Start-up\<close>

text \<open>
  Model of \<open>main\<close> of \<open>src/main.rs\<close> up to the call of \<open>run\<close>, with \<open>disable_internal_nscd\<close> of
  \<open>src/ffi.rs\<close>.  The computation threads the list of the calls made so far to the operating system,
  to the C library and to the service manager; the parameter \<open>os\<close> says what \<open>dlsym\<close> finds and which
  error, if any, a call returns after those made before it.
\<close>

subsection \<open>Calls to the outside\<close>

text \<open>The argument of \<open>__nss_disable_nscd\<close> is a function of the program that does nothing.\<close>

datatype callback = do_nothing

datatype os_call =
    Dlsym "byte list"
  | Call_Symbol usize callback
  | Info string "RequestType list" usize "64 word"
  | Create_Dir_All string
  | Remove_File string
  | Bind string
  | Set_Permissions string u32
  | Notify_Ready

record os =
  os_dlsym :: "byte list \<Rightarrow> usize"
  os_error :: "os_call list \<Rightarrow> os_call \<Rightarrow> int option"

type_synonym 'a startup = "os_call list \<Rightarrow> os_call list \<times> (error, 'a) outcome"

definition st_bind :: "'a startup \<Rightarrow> ('a \<Rightarrow> 'b startup) \<Rightarrow> 'b startup" where
  "st_bind m k calls = (case m calls of
     (calls', Ok a) \<Rightarrow> k a calls'
   | (calls', Err e) \<Rightarrow> (calls', Err e)
   | (calls', Panic p) \<Rightarrow> (calls', Panic p)
   | (calls', Undefined) \<Rightarrow> (calls', Undefined)
   | (calls', Diverge) \<Rightarrow> (calls', Diverge))"

text \<open>A computation that calls nothing, a call whose error is dropped, and a call followed by \<open>?\<close>.\<close>

definition st_pure :: "(error, 'a) outcome \<Rightarrow> 'a startup" where
  "st_pure r calls = (calls, r)"

definition st_call :: "os_call \<Rightarrow> unit startup" where
  "st_call c calls = (calls @ [c], Ok ())"

definition st_try :: "os \<Rightarrow> (int \<Rightarrow> error) \<Rightarrow> os_call \<Rightarrow> unit startup" where
  "st_try os err c calls =
     (calls @ [c], case os_error os calls c of None \<Rightarrow> Ok () | Some e \<Rightarrow> Err (err e))"

subsection \<open>Disabling the internal nscd client\<close>

definition disable_internal_nscd :: "os \<Rightarrow> unit startup" where
  "disable_internal_nscd os =
     st_bind (st_pure (result_unwrap (cstring_new (bytes_of_string ''__nss_disable_nscd'')))) (\<lambda>sym_name.
     st_bind (st_call (Dlsym (with_nul sym_name))) (\<lambda>_.
     let sym_ptr = os_dlsym os (with_nul sym_name) in
     if sym_ptr \<noteq> 0 then st_call (Call_Symbol sym_ptr do_nothing) else st_pure (Ok ())))"

subsection \<open>\<open>main\<close> until \<open>run\<close>\<close>

definition SOCKET_PATH :: string where
  "SOCKET_PATH = ''/var/run/nscd/socket''"

text \<open>
  \<open>Path::parent\<close>, for paths without a trailing or doubled slash and without dot components: what
  stands before the last slash, the root for an entry of the root.
\<close>

definition path_parent :: "string \<Rightarrow> string option" where
  "path_parent path = (if path \<in> {'''', ''/''} then None
     else let dir = rev (dropWhile (\<lambda>c. c \<noteq> CHR ''/'') (rev path))
       in Some (if dir = ''/'' then dir else butlast dir))"

definition spawn_workers :: "Config \<Rightarrow> body WorkGroup \<Rightarrow> body WorkGroup \<times> world" where
  "spawn_workers config wg =
     (foldl (\<lambda>wg worker_id. WorkGroup_add wg Receiving) wg [0..<unat (worker_count config)],
      \<lparr>tx_alive = True,
       receivers = {length (wg_fs wg)..<length (wg_fs wg) + unat (worker_count config)},
       accepted = [], abandoned = [], served = []\<rparr>)"

definition spawn_acceptor :: "body WorkGroup \<Rightarrow> body WorkGroup" where
  "spawn_acceptor wg = WorkGroup_add wg Accepting"

text \<open>The message "started" formats the configuration, and with it the set of ignored requests.\<close>

definition log_started :: "from_i32 \<Rightarrow> string \<Rightarrow> Config \<Rightarrow> unit startup" where
  "log_started from_i32 path config =
     st_bind (st_pure (RequestTypeSet_fmt from_i32 (ignored_request_types config))) (\<lambda>ignored.
     st_call (Info path ignored (worker_count config) (handoff_timeout config)))"

definition main_start :: "os \<Rightarrow> from_i32 \<Rightarrow> environment \<Rightarrow> (Config \<times> (body, world) grp) startup" where
  "main_start os from_i32 env =
     st_bind (disable_internal_nscd os) (\<lambda>_.
     st_bind (st_pure (from_env env)) (\<lambda>config.
     st_bind (log_started from_i32 SOCKET_PATH config) (\<lambda>_.
     let (wg, w) = spawn_workers config WorkGroup_new in
     st_bind (st_pure (unwrap (path_parent SOCKET_PATH))) (\<lambda>dir.
     st_bind (st_try os Errno (Create_Dir_All dir)) (\<lambda>_.
     st_bind (st_call (Remove_File SOCKET_PATH)) (\<lambda>_.
     st_bind (st_try os Could_Not_Bind (Bind SOCKET_PATH)) (\<lambda>_.
     st_bind (st_try os Errno (Set_Permissions SOCKET_PATH 511)) (\<lambda>_.
     let wg = spawn_acceptor wg in
     st_bind (st_call Notify_Ready) (\<lambda>_.
     st_pure (Ok (config, start_run wg w)))))))))))"

section \<open>Lemmas of start-up\<close>

lemmas st_defs = st_bind_def st_pure_def st_call_def st_try_def

definition nscd_calls :: "os \<Rightarrow> os_call list" where
  "nscd_calls os = (let sym = with_nul (bytes_of_string ''__nss_disable_nscd'') in
     Dlsym sym # (if os_dlsym os sym = 0 then [] else [Call_Symbol (os_dlsym os sym) do_nothing]))"

lemma disable_internal_nscd_calls: "disable_internal_nscd os calls = (calls @ nscd_calls os, Ok ())"
proof -
  have "cstring_ok (bytes_of_string ''__nss_disable_nscd'')" by code_simp
  then show ?thesis
    by (simp add: disable_internal_nscd_def nscd_calls_def st_defs cstring_new_def Let_def)
qed

lemma path_parent_SOCKET_PATH: "path_parent SOCKET_PATH = Some ''/var/run/nscd''"
  by code_simp

lemma wg_fs_add_workers:
  "wg_fs (foldl (\<lambda>wg k. WorkGroup_add wg f) wg ks) = wg_fs wg @ replicate (length ks) f \<and>
   wg_data (foldl (\<lambda>wg k. WorkGroup_add wg f) wg ks) = wg_data wg"
  by (induction ks arbitrary: wg) (simp_all add: WorkGroup_add_def replicate_append_same)

text \<open>The group that start-up hands to \<open>run\<close>: the workers, then the acceptor.\<close>

definition started_group :: "Config \<Rightarrow> (body, world) grp" where
  "started_group cfg =
     start_run \<lparr>wg_fs = replicate (unat (worker_count cfg)) Receiving @ [Accepting], wg_data = None\<rparr>
       \<lparr>tx_alive = True, receivers = {..<unat (worker_count cfg)}, accepted = [], abandoned = [], served = []\<rparr>"

lemma spawn_group:
  "start_run (spawn_acceptor (fst (spawn_workers cfg WorkGroup_new))) (snd (spawn_workers cfg WorkGroup_new)) =
     started_group cfg"
proof -
  have "spawn_acceptor (fst (spawn_workers cfg WorkGroup_new)) =
      \<lparr>wg_fs = replicate (unat (worker_count cfg)) Receiving @ [Accepting], wg_data = None\<rparr>"
    using wg_fs_add_workers [of Receiving WorkGroup_new "[0..<unat (worker_count cfg)]"]
    by (simp add: spawn_acceptor_def spawn_workers_def WorkGroup_add_def WorkGroup_new_def)
  then show ?thesis
    by (simp add: started_group_def spawn_workers_def WorkGroup_new_def atLeast0LessThan)
qed

text \<open>
  A script is a list of calls, each with what its error becomes, or with nothing if its error is
  dropped.  It stops at the first call whose error counts.
\<close>

type_synonym script = "((int \<Rightarrow> error) option \<times> os_call) list"

fun run_script :: "os \<Rightarrow> script \<Rightarrow> unit startup" where
  "run_script os [] = st_pure (Ok ())"
| "run_script os ((None, c) # cs) = st_bind (st_call c) (\<lambda>_. run_script os cs)"
| "run_script os ((Some err, c) # cs) = st_bind (st_try os err c) (\<lambda>_. run_script os cs)"

definition failing :: "os \<Rightarrow> os_call list \<Rightarrow> script \<Rightarrow> nat \<Rightarrow> error \<Rightarrow> bool" where
  "failing os calls cs i e \<longleftrightarrow> (\<exists>err c n. i < length cs \<and> cs ! i = (Some err, c) \<and>
     os_error os (calls @ map snd (take i cs)) c = Some n \<and> e = err n)"

lemma failing_Cons:
  "failing os calls ((r, c) # cs) 0 e \<longleftrightarrow> (\<exists>err n. r = Some err \<and> os_error os calls c = Some n \<and> e = err n)"
  "failing os calls ((r, c) # cs) (Suc i) e \<longleftrightarrow> failing os (calls @ [c]) cs i e"
  by (auto simp: failing_def)

lemma run_script_step:
  assumes "run_script os ((r, c) # cs) calls = run_script os cs (calls @ [c])"
    and "\<And>e. \<not> failing os calls ((r, c) # cs) 0 e"
    and "(\<forall>i e. \<not> failing os (calls @ [c]) cs i e) \<and> run_script os cs (calls @ [c]) = ((calls @ [c]) @ map snd cs, Ok ()) \<or>
      (\<exists>i e. failing os (calls @ [c]) cs i e \<and> (\<forall>j < i. \<forall>e. \<not> failing os (calls @ [c]) cs j e) \<and>
         run_script os cs (calls @ [c]) = ((calls @ [c]) @ map snd (take (Suc i) cs), Err e))"
  shows "(\<forall>i e. \<not> failing os calls ((r, c) # cs) i e) \<and>
      run_script os ((r, c) # cs) calls = (calls @ map snd ((r, c) # cs), Ok ()) \<or>
    (\<exists>i e. failing os calls ((r, c) # cs) i e \<and> (\<forall>j < i. \<forall>e. \<not> failing os calls ((r, c) # cs) j e) \<and>
      run_script os ((r, c) # cs) calls = (calls @ map snd (take (Suc i) ((r, c) # cs)), Err e))"
  using assms(3)
proof (elim disjE conjE exE)
  assume none: "\<forall>i e. \<not> failing os (calls @ [c]) cs i e"
  have "\<not> failing os calls ((r, c) # cs) i e" for i e
    using none assms(2) by (cases i) (simp_all add: failing_Cons(2))
  moreover assume "run_script os cs (calls @ [c]) = ((calls @ [c]) @ map snd cs, Ok ())"
  ultimately show ?thesis by (simp add: assms(1) del: run_script.simps)
next
  fix i e assume first: "\<forall>j < i. \<forall>e. \<not> failing os (calls @ [c]) cs j e"
  have "\<not> failing os calls ((r, c) # cs) j e" if "j < Suc i" for j e
    using that first assms(2) by (cases j) (simp_all add: failing_Cons(2))
  moreover assume "failing os (calls @ [c]) cs i e"
    "run_script os cs (calls @ [c]) = ((calls @ [c]) @ map snd (take (Suc i) cs), Err e)"
  ultimately show ?thesis
    by (intro disjI2 exI [of _ "Suc i"] exI [of _ e]) (simp add: assms(1) failing_Cons(2) del: run_script.simps)
qed

lemma run_script_cases:
  "(\<forall>i e. \<not> failing os calls cs i e) \<and> run_script os cs calls = (calls @ map snd cs, Ok ()) \<or>
   (\<exists>i e. failing os calls cs i e \<and> (\<forall>j < i. \<forall>e. \<not> failing os calls cs j e) \<and>
      run_script os cs calls = (calls @ map snd (take (Suc i) cs), Err e))"
proof (induction os cs arbitrary: calls rule: run_script.induct)
  case (1 os)
  then show ?case by (simp add: failing_def st_pure_def)
next
  case (2 os c cs)
  show ?case by (rule run_script_step [OF _ _ 2]) (simp_all add: st_defs failing_Cons)
next
  case (3 os err c cs)
  show ?case
  proof (cases "os_error os calls c")
    case None
    then show ?thesis by (intro run_script_step [OF _ _ 3]) (simp_all add: st_defs failing_Cons)
  next
    case (Some n)
    then show ?thesis
      by (intro disjI2 exI [of _ 0] exI [of _ "err n"]) (simp add: failing_Cons st_defs)
  qed
qed

text \<open>The script of \<open>main\<close> after the configuration is read and shown.\<close>

definition setup_script :: "RequestType list \<Rightarrow> Config \<Rightarrow> script" where
  "setup_script tys cfg =
     [(None, Info SOCKET_PATH tys (worker_count cfg) (handoff_timeout cfg)),
      (Some Errno, Create_Dir_All ''/var/run/nscd''),
      (None, Remove_File SOCKET_PATH),
      (Some Could_Not_Bind, Bind SOCKET_PATH),
      (Some Errno, Set_Permissions SOCKET_PATH 511),
      (None, Notify_Ready)]"

lemma failing_setup:
  "failing os calls (setup_script tys cfg) i e \<longleftrightarrow>
     (let info = Info SOCKET_PATH tys (worker_count cfg) (handoff_timeout cfg);
          dir = Create_Dir_All ''/var/run/nscd''; rm = Remove_File SOCKET_PATH; bind = Bind SOCKET_PATH;
          mode = Set_Permissions SOCKET_PATH 511
      in \<exists>n. i = 1 \<and> os_error os (calls @ [info]) dir = Some n \<and> e = Errno n \<or>
        i = 3 \<and> os_error os (calls @ [info, dir, rm]) bind = Some n \<and> e = Could_Not_Bind n \<or>
        i = 4 \<and> os_error os (calls @ [info, dir, rm, bind]) mode = Some n \<and> e = Errno n)"
proof -
  consider "i = 0" | "i = 1" | "i = 2" | "i = 3" | "i = 4" | "i = 5" | "6 \<le> i" by linarith
  then show ?thesis by cases (auto simp: failing_def setup_script_def)
qed

lemma nscd_calls_only: "c \<in> set (nscd_calls os) \<Longrightarrow> (\<exists>s. c = Dlsym s) \<or> (\<exists>p k. c = Call_Symbol p k)"
  by (auto simp: nscd_calls_def Let_def split: if_splits)

lemma st_pure_bind [simp]: "st_bind (st_pure (Ok a)) k = k a"
  by (simp add: fun_eq_iff st_defs)

lemma st_bind_assoc: "st_bind (st_bind m k) l = st_bind m (\<lambda>a. st_bind (k a) l)"
  by (auto simp: fun_eq_iff st_bind_def split: prod.split outcome.split)

lemma main_start_script:
  assumes "from_env env = Ok cfg" "RequestTypeSet_fmt f (ignored_request_types cfg) = Ok tys"
  shows "main_start os f env calls =
    st_bind (run_script os (setup_script tys cfg)) (\<lambda>_. st_pure (Ok (cfg, started_group cfg)))
      (calls @ nscd_calls os)"
  by (simp add: main_start_def log_started_def setup_script_def assms path_parent_SOCKET_PATH st_bind_assoc
      case_prod_unfold Let_def spawn_group st_bind_def [of "disable_internal_nscd os"] disable_internal_nscd_calls)

lemma main_start_no_config:
  assumes "\<nexists>cfg. from_env env = Ok cfg"
  shows "fst (main_start os f env calls) = calls @ nscd_calls os \<and> (\<forall>x. snd (main_start os f env calls) \<noteq> Ok x)"
  using assms
  by (cases "from_env env") (simp_all add: main_start_def st_bind_def st_pure_def disable_internal_nscd_calls)

lemma main_start_fmt_fails:
  assumes "from_env env = Ok cfg" "\<nexists>tys. RequestTypeSet_fmt f (ignored_request_types cfg) = Ok tys"
  shows "snd (main_start os f env calls) \<noteq> Ok x"
  using assms
  by (cases "RequestTypeSet_fmt f (ignored_request_types cfg)")
    (simp_all add: main_start_def log_started_def st_bind_def st_pure_def disable_internal_nscd_calls)

text \<open>Start-up panics only where reading the configuration does, before it has touched the socket.\<close>

lemma main_start_Panic:
  assumes "from_primitive_law f" "main_start os f env calls = (calls', Panic p)"
  shows "from_env env = Panic p \<and> calls' = calls @ nscd_calls os"
proof (cases "from_env env")
  case (Ok cfg)
  obtain tys where tys: "RequestTypeSet_fmt f (ignored_request_types cfg) = Ok tys"
    using RequestTypeSet_fmt_lists [OF assms(1) from_env_set_ok [OF Ok]] by blast
  show ?thesis
    using run_script_cases [of os "calls @ nscd_calls os" "setup_script tys cfg"] assms(2)
    by (auto simp: main_start_script [OF Ok tys] st_bind_def st_pure_def)
qed (use assms(2) in \<open>simp_all add: main_start_def st_bind_def st_pure_def disable_internal_nscd_calls\<close>)

lemma main_start_Ok:
  assumes "main_start os f env calls = (calls', Ok (cfg, g))"
  shows "g = started_group cfg" "from_env env = Ok cfg"
proof -
  obtain cfg' where env: "from_env env = Ok cfg'"
    using main_start_no_config [of env os f calls] assms by auto
  moreover obtain tys where "RequestTypeSet_fmt f (ignored_request_types cfg') = Ok tys"
    using main_start_fmt_fails [OF env, of f os calls] assms by auto
  ultimately have "snd (main_start os f env calls) = Ok (cfg', started_group cfg') \<or>
      (\<exists>e. snd (main_start os f env calls) = Err e)"
    using run_script_cases [of os "calls @ nscd_calls os" "setup_script tys cfg'"]
    by (auto simp: main_start_script st_defs)
  with assms env show "g = started_group cfg" "from_env env = Ok cfg" by auto
qed

text \<open>An operating system on which every call succeeds and the C library has no nscd client.\<close>

definition example_os :: os where
  "example_os = \<lparr>os_dlsym = (\<lambda>_. 0), os_error = (\<lambda>_ _. None)\<rparr>"

lemma from_env_empty: "from_env [] = Ok Config_default"
  by (simp add: from_env_def env_positive_usize_def env_var_def Config_default_def)

lemma example_startup:
  "\<exists>calls. main_start example_os from_i32_by_search [] [] = (calls, Ok (Config_default, started_group Config_default))"
  using run_script_cases [of example_os "[] @ nscd_calls example_os" "setup_script tys Config_default" for tys]
    RequestTypeSet_fmt_eval [OF from_i32_by_search_law, of "ignored_request_types Config_default"]
  by (auto simp: main_start_script [OF from_env_empty] failing_def example_os_def st_defs Config_default_def
      bitset.new(1))

subsection \<open>Where start-up can stop\<close>

text \<open>
  The calls of \<open>main\<close> after the configuration is read, those of them whose error ends it, and the error
  a call returns if all those before it have been made.
\<close>

definition setup_calls :: "RequestType list \<Rightarrow> Config \<Rightarrow> os_call list" where
  "setup_calls tys cfg =
     [Info SOCKET_PATH tys (worker_count cfg) (handoff_timeout cfg), Create_Dir_All ''/var/run/nscd'',
      Remove_File SOCKET_PATH, Bind SOCKET_PATH, Set_Permissions SOCKET_PATH 511, Notify_Ready]"

definition checked_calls :: "os_call set" where
  "checked_calls = {Create_Dir_All ''/var/run/nscd'', Bind SOCKET_PATH, Set_Permissions SOCKET_PATH 511}"

definition error_at :: "os \<Rightarrow> RequestType list \<Rightarrow> Config \<Rightarrow> os_call \<Rightarrow> int option" where
  "error_at os tys cfg c = os_error os (nscd_calls os @ takeWhile (\<lambda>d. d \<noteq> c) (setup_calls tys cfg)) c"

lemma setup_script_calls: "map snd (setup_script tys cfg) = setup_calls tys cfg"
  by (simp add: setup_script_def setup_calls_def)

lemma checked_positions: "checked_calls = (!) (setup_calls tys cfg) ` {1, 3, 4}"
  by (simp add: checked_calls_def setup_calls_def)

lemma failing_iff:
  "(\<exists>e. failing os (nscd_calls os) (setup_script tys cfg) i e) \<longleftrightarrow>
     i \<in> {1, 3, 4} \<and> error_at os tys cfg (setup_calls tys cfg ! i) \<noteq> None"
proof -
  consider "i = 1" | "i = 3" | "i = 4" | "i \<notin> {1, 3, 4}" by blast
  then show ?thesis by cases (simp_all add: failing_setup error_at_def setup_calls_def Let_def)
qed

lemma failing_error:
  "failing os (nscd_calls os) (setup_script tys cfg) i e \<Longrightarrow>
     \<exists>n. error_at os tys cfg (setup_calls tys cfg ! i) = Some n \<and> e \<in> {Errno n, Could_Not_Bind n}"
  unfolding failing_setup Let_def error_at_def setup_calls_def by (elim exE disjE conjE) simp_all

text \<open>A run that stops at position \<open>i\<close>: what was called before, and what was not.\<close>

lemma stopped_calls:
  assumes "i \<in> {1, 3, 4}" "calls = nscd_calls os @ take (Suc i) (setup_calls tys cfg)"
    and "\<And>j. j < i \<Longrightarrow> j \<in> {1, 3, 4} \<Longrightarrow> error_at os tys cfg (setup_calls tys cfg ! j) = None"
  shows "Notify_Ready \<notin> set calls" "last calls = setup_calls tys cfg ! i"
    "\<forall>c \<in> set (butlast calls) \<inter> checked_calls. error_at os tys cfg c = None"
proof -
  show "Notify_Ready \<notin> set calls"
    using assms(1) nscd_calls_only [of Notify_Ready os] by (auto simp: assms(2) setup_calls_def)
  show "last calls = setup_calls tys cfg ! i"
    using assms(1) by (auto simp: assms(2) setup_calls_def)
  have before: "butlast calls = nscd_calls os @ take i (setup_calls tys cfg)"
    using assms(1) by (auto simp: assms(2) setup_calls_def butlast_append)
  show "\<forall>c \<in> set (butlast calls) \<inter> checked_calls. error_at os tys cfg c = None"
  proof
    fix c assume c: "c \<in> set (butlast calls) \<inter> checked_calls"
    then have "c \<notin> set (nscd_calls os)" using nscd_calls_only [of c os] by (auto simp: checked_calls_def)
    with c obtain j where j: "j < i" "c = setup_calls tys cfg ! j" by (auto simp: before in_set_conv_nth)
    then have "j \<in> {1, 3, 4}"
      using c assms(1) by (auto simp: checked_calls_def setup_calls_def nth_Cons' split: if_splits)
    with j assms(3) show "error_at os tys cfg c = None" by simp
  qed
qed

lemma startup_with_config:
  assumes "from_primitive_law f" "main_start os f env [] = (calls, r)" and cfg: "from_env env = Ok cfg"
  shows "\<exists>tys. set tys = set_members (ignored_request_types cfg) - {LASTREQ} \<and>
    prefix calls (nscd_calls os @ setup_calls tys cfg) \<and>
    (if \<forall>c \<in> checked_calls. error_at os tys cfg c = None
     then Notify_Ready \<in> set calls \<and> r = Ok (cfg, started_group cfg)
     else Notify_Ready \<notin> set calls \<and>
       (\<forall>c \<in> set (butlast calls) \<inter> checked_calls. error_at os tys cfg c = None) \<and>
       (\<exists>n. error_at os tys cfg (last calls) = Some n \<and> r \<in> {Err (Errno n), Err (Could_Not_Bind n)}))"
proof -
  obtain tys where tys: "RequestTypeSet_fmt f (ignored_request_types cfg) = Ok tys"
    "set tys = set_members (ignored_request_types cfg) - {LASTREQ}"
    using RequestTypeSet_fmt_eval [OF assms(1) from_env_set_ok [OF cfg]] image_request_types by auto
  note run = main_start_script [OF cfg tys(1), of os "[]"]
  show ?thesis
    using run_script_cases [of os "nscd_calls os" "setup_script tys cfg"]
  proof (elim disjE conjE exE)
    assume "\<forall>i e. \<not> failing os (nscd_calls os) (setup_script tys cfg) i e"
      and ok: "run_script os (setup_script tys cfg) (nscd_calls os) =
         (nscd_calls os @ map snd (setup_script tys cfg), Ok ())"
    then have "\<forall>c \<in> checked_calls. error_at os tys cfg c = None"
      using failing_iff unfolding checked_positions [of tys cfg] by blast
    moreover have "calls = nscd_calls os @ setup_calls tys cfg" "r = Ok (cfg, started_group cfg)"
      using run assms(2) ok by (simp_all add: st_bind_def st_pure_def setup_script_calls)
    moreover have "Notify_Ready \<in> set (setup_calls tys cfg)" by (simp add: setup_calls_def)
    ultimately show ?thesis using tys(2) by (intro exI [of _ tys]) simp
  next
    fix i e
    assume i: "failing os (nscd_calls os) (setup_script tys cfg) i e"
      and first: "\<forall>j < i. \<forall>e. \<not> failing os (nscd_calls os) (setup_script tys cfg) j e"
      and stop: "run_script os (setup_script tys cfg) (nscd_calls os) =
         (nscd_calls os @ map snd (take (Suc i) (setup_script tys cfg)), Err e)"
    have pos: "i \<in> {1, 3, 4}" using i failing_iff by blast
    have calls: "calls = nscd_calls os @ take (Suc i) (setup_calls tys cfg)" "r = Err e"
      using run assms(2) stop by (simp_all add: st_bind_def st_pure_def setup_script_calls flip: take_map)
    have "error_at os tys cfg (setup_calls tys cfg ! j) = None" if "j < i" "j \<in> {1, 3, 4}" for j
      using first that failing_iff by blast
    note stopped = stopped_calls [OF pos calls(1) this]
    have "prefix calls (nscd_calls os @ setup_calls tys cfg)"
      using calls(1) by (metis append_assoc append_take_drop_id prefixI)
    then show ?thesis
      using tys(2) calls(2) stopped failing_error [OF i] pos
      by (intro exI [of _ tys]) (auto simp: checked_positions [of tys cfg])
  qed
qed

section \<open>Properties of start-up\<close>

text \<open>
  C12. Start-up does its work in one order: the internal nscd client is looked up and, where the C
  library has it, disabled before anything else; the socket directory is made, an old socket removed
  (whether or not that succeeds), the new one bound and opened to everybody, and only then the service
  manager is told that the daemon is ready.  An environment without a configuration stops it before
  the file system is touched.  Otherwise it stops at the first of the three checked calls that fails,
  with the error of that call; the service manager is told exactly if none fails, and \<open>run\<close> then gets
  the configured number of workers and one acceptor.
\<close>

theorem startup_sequence:
  assumes "from_primitive_law f" "main_start os f env [] = (calls, r)"
  shows "((\<nexists>cfg. from_env env = Ok cfg) \<longrightarrow> calls = nscd_calls os \<and> (\<nexists>x. r = Ok x)) \<and>
    (\<forall>cfg. from_env env = Ok cfg \<longrightarrow> (\<exists>tys. set tys = set_members (ignored_request_types cfg) - {LASTREQ} \<and>
       prefix calls (nscd_calls os @ setup_calls tys cfg) \<and>
       (if \<forall>c \<in> checked_calls. error_at os tys cfg c = None
        then Notify_Ready \<in> set calls \<and> r = Ok (cfg, started_group cfg)
        else Notify_Ready \<notin> set calls \<and>
          (\<forall>c \<in> set (butlast calls) \<inter> checked_calls. error_at os tys cfg c = None) \<and>
          (\<exists>n. error_at os tys cfg (last calls) = Some n \<and> r \<in> {Err (Errno n), Err (Could_Not_Bind n)}))))"
  using startup_with_config [OF assms] main_start_no_config [of env os f "[]"] assms(2) by simp

theorem startup_sequence_witness:
  "\<exists>calls r. main_start (example_os\<lparr>os_error := \<lambda>calls c. if c = Bind SOCKET_PATH then Some 98 else None\<rparr>)
      from_i32_by_search [] [] = (calls, r) \<and>
    last calls = Bind SOCKET_PATH \<and> Notify_Ready \<notin> set calls \<and> r \<in> {Err (Errno 98), Err (Could_Not_Bind 98)}"
proof -
  let ?os = "example_os\<lparr>os_error := \<lambda>calls c. if c = Bind SOCKET_PATH then Some 98 else None\<rparr>"
  obtain calls r where run: "main_start ?os from_i32_by_search [] [] = (calls, r)" by fastforce
  have "error_at ?os tys cfg c = (if c = Bind SOCKET_PATH then Some 98 else None)" for tys cfg c
    by (simp add: error_at_def)
  with startup_sequence [OF from_i32_by_search_law run] from_env_empty run show ?thesis
    by (auto simp: checked_calls_def split: if_splits)
qed

end
