(* ===== verification/Daemon.thy ===== *)
theory Daemon
  imports Startup "HOL-Library.Multiset"
begin

section \<open>The daemon\<close>

text \<open>
  The whole process: the work group that start-up builds, and what \<open>main\<close> of \<open>src/main.rs\<close> does with
  the result of \<open>run\<close>.  The theory holds the invariant of the daemon, the bound on the steps it takes
  to drain, and the properties of its threads together.
\<close>

subsection \<open>The end of \<open>main\<close>\<close>

datatype main_pc = In_Run | Join_Rest "nat list" | Main_Returned | Main_Unwound panic

record daemon =
  group_of :: "(body, world) grp"
  main_at :: main_pc

text \<open>
  The other threads run until \<open>main\<close> returns or unwinds, which ends the process.  \<open>main\<close> unwinds if a
  panic comes out of \<open>run\<close>, and if \<open>run\<close> returns the panic of a thread.  (It also unwinds if start-up
  panics; then the group below does not exist, see \<open>main_start_Panic\<close>.)
\<close>

fun process_alive :: "main_pc \<Rightarrow> bool" where
  "process_alive In_Run = True"
| "process_alive (Join_Rest _) = True"
| "process_alive _ = False"

inductive main_step :: "daemon \<Rightarrow> daemon \<Rightarrow> bool" where
  run_unwinds: "main_at d = In_Run \<Longrightarrow> run_panic (group_of d) p \<Longrightarrow>
     main_step d (d\<lparr>main_at := Main_Unwound p\<rparr>)"
|  resume_unwind: "main_at d = In_Run \<Longrightarrow> pc (group_of d) = Run_Done (Unwound p) hs \<Longrightarrow>
     main_step d (d\<lparr>main_at := Main_Unwound p\<rparr>)"
| shutting_down: "main_at d = In_Run \<Longrightarrow> pc (group_of d) = Run_Done Returned hs \<Longrightarrow>
     main_step d (d\<lparr>main_at := Join_Rest hs\<rparr>)"
| join_rest: "main_at d = Join_Rest (h # hs) \<Longrightarrow> threads (group_of d) ! h = Finished x \<Longrightarrow>
     main_step d (d\<lparr>main_at := Join_Rest hs\<rparr>)"
| main_returns: "main_at d = Join_Rest [] \<Longrightarrow> main_step d (d\<lparr>main_at := Main_Returned\<rparr>)"

definition daemon_step :: "setting \<Rightarrow> daemon \<Rightarrow> daemon \<Rightarrow> bool" where
  "daemon_step S d d' \<longleftrightarrow> main_step d d' \<or>
     process_alive (main_at d) \<and>
     (\<exists>g. group_step (daemon_bodies S) (group_of d) g \<and> d' = d\<lparr>group_of := g\<rparr>)"

text \<open>The states in which start-up ends if it succeeds: \<open>main\<close> is about to call \<open>run\<close>.\<close>

definition daemon_init :: "setting \<Rightarrow> daemon \<Rightarrow> bool" where
  "daemon_init S d \<longleftrightarrow> main_at d = In_Run \<and>
     (\<exists>os from_i32 env calls. main_start os from_i32 env [] = (calls, Ok (st_config S, group_of d)))"

inductive_cases main_stepE: "main_step d d'"

section \<open>The invariant of the daemon\<close>

text \<open>Some connection made \<open>handle_stream\<close> panic.\<close>

definition crashed :: "setting \<Rightarrow> world \<Rightarrow> panic \<Rightarrow> bool" where
  "crashed S w p \<longleftrightarrow> (\<exists>s ev lib. (s, ev) \<in> set (served w) \<and> lib \<in> st_libs S \<and>
     handle_stream (st_target S) lib (st_config S) s = (ev, Panic p))"

fun worker_body :: "body \<Rightarrow> bool" where
  "worker_body Receiving = True"
| "worker_body (Serving _) = True"
| "worker_body _ = False"

text \<open>
  Threads below the worker count are workers, each with its receiver, the next one is the acceptor.  The channel is open as
  long as the acceptor is in its loop; a worker returns only after it is closed, and unwinds only
  after a panic of \<open>handle_stream\<close>; the acceptor never unwinds.
\<close>

definition body_ok :: "setting \<Rightarrow> world \<Rightarrow> nat \<Rightarrow> body \<Rightarrow> bool" where
  "body_ok S w j b \<longleftrightarrow> (if j < workers S then worker_body b \<and> j \<in> receivers w
     else \<not> worker_body b \<and> tx_alive w \<and> (b \<noteq> Leaving \<longrightarrow> abandoned w = []))"

fun exit_ok :: "setting \<Rightarrow> world \<Rightarrow> nat \<Rightarrow> exit \<Rightarrow> bool" where
  "exit_ok S w j Returned \<longleftrightarrow> \<not> tx_alive w"
| "exit_ok S w j (Unwound p) \<longleftrightarrow> j < workers S \<and> crashed S w p"

fun thread_ok :: "setting \<Rightarrow> world \<Rightarrow> nat \<Rightarrow> body thread \<Rightarrow> bool" where
  "thread_ok S w j (Running b) = body_ok S w j b"
| "thread_ok S w j (Dropping x) = exit_ok S w j x"
| "thread_ok S w j (Notifying x) = exit_ok S w j x"
| "thread_ok S w j (Unwinding x) = exit_ok S w j x"
| "thread_ok S w j (Finished x) = exit_ok S w j x"

text \<open>The connections a thread holds, and those that are served, abandoned or held by a thread.\<close>

fun in_flight :: "body thread \<Rightarrow> UnixStream list" where
  "in_flight (Running (Serving s)) = [s]"
| "in_flight (Running (Checking (Inr s))) = [s]"
| "in_flight (Running (Sending s)) = [s]"
| "in_flight _ = []"

definition settled :: "world \<Rightarrow> UnixStream multiset" where
  "settled w = mset (map fst (served w)) + mset (abandoned w)"

definition flying :: "body thread list \<Rightarrow> UnixStream multiset" where
  "flying ths = mset (concat (map in_flight ths))"

definition threads_ok :: "setting \<Rightarrow> body thread list \<Rightarrow> world \<Rightarrow> bool" where
  "threads_ok S ths w \<longleftrightarrow> length ths = Suc (workers S) \<and>
     (\<forall>j < length ths. thread_ok S w j (ths ! j)) \<and>
     mset (accepted w) = settled w + flying ths \<and> length (abandoned w) \<le> 1"

lemma thread_ok_exit: "exit_of th = Some x \<Longrightarrow> thread_ok S w j th = exit_ok S w j x"
  by (cases th) simp_all

lemma in_flight_exit: "exit_of th = Some x \<Longrightarrow> in_flight th = []"
  by (cases th) simp_all

lemma flying_update:
  "i < length ths \<Longrightarrow> flying (ths[i := th]) + mset (in_flight (ths ! i)) = flying ths + mset (in_flight th)"
  unfolding flying_def
proof (induction ths arbitrary: i)
  case (Cons a ths)
  then show ?case by (cases i) (auto simp: ac_simps)
qed simp

text \<open>How thread \<open>i\<close> may change the world the other threads see.\<close>

definition evolves :: "setting \<Rightarrow> nat \<Rightarrow> world \<Rightarrow> world \<Rightarrow> bool" where
  "evolves S i w w' \<longleftrightarrow> (tx_alive w' \<longrightarrow> tx_alive w) \<and> set (served w) \<subseteq> set (served w') \<and>
     receivers w - {i} \<subseteq> receivers w' \<and>
     (i < workers S \<longrightarrow> tx_alive w' = tx_alive w \<and> abandoned w' = abandoned w)"

lemma evolves_refl [simp]: "evolves S i w w"
  by (simp add: evolves_def)

lemma crashed_mono: "crashed S w p \<Longrightarrow> set (served w) \<subseteq> set (served w') \<Longrightarrow> crashed S w' p"
  unfolding crashed_def by blast

lemma exit_ok_evolves: "exit_ok S w j x \<Longrightarrow> evolves S i w w' \<Longrightarrow> exit_ok S w' j x"
  by (cases x) (auto simp: evolves_def intro: crashed_mono)

lemma thread_ok_evolves:
  assumes "evolves S i w w'" "i \<le> workers S" "j \<le> workers S" "j \<noteq> i" "thread_ok S w j th"
  shows "thread_ok S w' j th"
proof (cases th)
  case (Running b)
  then show ?thesis using assms by (auto simp: body_ok_def evolves_def)
qed (use assms exit_ok_evolves in auto)

text \<open>One step of a closure, on its own thread and on the ledger.\<close>

lemma daemon_body_ok:
  assumes "daemon_body S q b w r w'" "body_ok S w i b" "crossbeam_law (st_channel S)"
    and "length (abandoned w) \<le> 1"
  shows "evolves S i w w'" and "thread_ok S w' i (continue_with r)" and "length (abandoned w') \<le> 1"
    and "mset (accepted w') + settled w + mset (in_flight (Running b)) =
      mset (accepted w) + settled w' + mset (in_flight (continue_with r))"
proof -
  show "evolves S i w w'" "thread_ok S w' i (continue_with r)" "length (abandoned w') \<le> 1"
    using assms by (cases; auto simp: body_ok_def evolves_def crashed_def crossbeam_law_def split: if_splits)+
  show "mset (accepted w') + settled w + mset (in_flight (Running b)) =
      mset (accepted w) + settled w' + mset (in_flight (continue_with r))"
    using assms(1) by cases (auto simp: settled_def)
qed

lemma threads_ok_update:
  assumes "threads_ok S ths w" "i < length ths" "evolves S i w w'" "thread_ok S w' i th"
    and "length (abandoned w') \<le> 1"
    and "mset (accepted w') + settled w + mset (in_flight (ths ! i)) =
      mset (accepted w) + settled w' + mset (in_flight th)"
  shows "threads_ok S (ths[i := th]) w'"
proof -
  have "thread_ok S w' j (ths[i := th] ! j)" if "j < length ths" for j
    using assms(1-4) that thread_ok_evolves [OF assms(3), of j "ths ! j"]
    by (cases "j = i") (auto simp: threads_ok_def)
  moreover have "mset (accepted w') = settled w' + flying (ths[i := th])"
  proof -
    have "mset (accepted w') + (settled w + flying ths + mset (in_flight (ths ! i))) =
        settled w' + flying (ths[i := th]) + (settled w + flying ths + mset (in_flight (ths ! i)))"
      using assms(1,6) flying_update [OF assms(2), of th] by (simp add: threads_ok_def ac_simps)
    then show ?thesis by (rule add_right_imp_eq)
  qed
  ultimately show ?thesis using assms(1,5) by (simp add: threads_ok_def)
qed

lemma threads_ok_captures:
  assumes "threads_ok S ths w" "i < length ths" "exit_of (ths ! i) = Some x" "exit_of th = Some x"
    and "w' = w \<or> w' = daemon_captures S i w"
  shows "threads_ok S (ths[i := th]) w'"
proof (rule threads_ok_update [OF assms(1,2)])
  show ev: "evolves S i w w'"
    using assms(5) by (auto simp: evolves_def daemon_captures_def split: if_splits)
  have "exit_ok S w i x" using assms(1-3) thread_ok_exit by (auto simp: threads_ok_def)
  then show "thread_ok S w' i th" using ev assms(4) by (simp add: thread_ok_exit exit_ok_evolves)
  show "length (abandoned w') \<le> 1"
    using assms(1,5) by (auto simp: threads_ok_def daemon_captures_def)
  show "mset (accepted w') + settled w + mset (in_flight (ths ! i)) =
      mset (accepted w) + settled w' + mset (in_flight th)"
    using assms(3,4,5) by (auto simp: in_flight_exit daemon_captures_def settled_def)
qed

lemma threads_ok_pair:
  assumes "threads_ok S ths w" "i < length ths" "j < length ths" "i \<noteq> j" "ths ! i = Running b" "ths ! j = Running c"
    and "daemon_pair S j b c w b' c' w'"
  shows "threads_ok S (ths[i := Running b', j := Running c']) w'"
proof -
  obtain s where s: "b = Sending s" "c = Receiving" "b' = Accepting" "c' = Serving s" "w' = w"
    using assms(7) by (auto elim: daemon_pairE)
  have ok: "thread_ok S w k (ths ! k)" if "k < length ths" for k
    using assms(1) that by (simp add: threads_ok_def)
  have roles: "body_ok S w i Accepting" "body_ok S w j (Serving s)"
    using ok [of i] ok [of j] assms(2,3,5,6) s by (auto simp: body_ok_def split: if_splits)
  have "thread_ok S w k (ths[i := Running b', j := Running c'] ! k)" if "k < length ths" for k
    using ok [OF that] roles that s assms(2,3) by (auto simp: nth_list_update)
  moreover have "flying (ths[i := Running b', j := Running c']) = flying ths"
    using flying_update [of i ths "Running b'"] flying_update [of j "ths[i := Running b']" "Running c'"]
      assms(2-6) s by simp
  ultimately show ?thesis using assms(1) s by (simp add: threads_ok_def)
qed

lemma group_step_threads_ok:
  assumes "crossbeam_law (st_channel S)" "threads_ok S (all_threads g) (shared g)"
    and "group_step (daemon_bodies S) g g'"
  shows "threads_ok S (all_threads g') (shared g')"
proof -
  have len: "i < length (threads g) \<Longrightarrow> i < length (all_threads g)" for i
    by (simp add: all_threads_def)
  consider "closure_step (daemon_bodies S) g g'" | "exit_step (daemon_bodies S) g g'"
    | "run_step g g' \<or> spurious_wakeup g g'"
    using assms(3) by (auto simp: group_step_def)
  then show ?thesis
  proof cases
    case 1
    then show ?thesis
    proof (cases rule: closure_step_change)
      case (body i b q r)
      then have step: "daemon_body S q b (shared g) r (shared g')" by (simp add: daemon_bodies_def)
      have "body_ok S (shared g) i b" "length (abandoned (shared g)) \<le> 1"
        using assms(2) body(2) len [OF body(1)] by (auto simp: threads_ok_def)
      note facts = daemon_body_ok [OF step this(1) assms(1) this(2)]
      then show ?thesis
        unfolding body(4) using body(2) len [OF body(1)] by (intro threads_ok_update [OF assms(2)]) simp_all
    next
      case (pair i j b c b' c')
      then show ?thesis
        using threads_ok_pair [OF assms(2) len [OF pair(1)] len [OF pair(2)] pair(3-5)]
        by (simp add: daemon_bodies_def)
    qed
  next
    case 2
    then show ?thesis
    proof (cases rule: exit_step_change)
      case (1 i x th w)
      then show ?thesis
        using threads_ok_captures [OF assms(2) len [OF 1(1)] 1(2,3), of w] by (simp add: daemon_bodies_def)
    qed
  next
    case 3
    then show ?thesis using run_step_all_threads spurious_all_threads assms(2) by metis
  qed
qed

subsection \<open>The whole daemon\<close>

definition finished_except :: "nat set \<Rightarrow> (body, world) grp \<Rightarrow> bool" where
  "finished_except H g \<longleftrightarrow> H \<subseteq> {..<length (threads g)} \<and>
     (\<forall>j < length (threads g). j \<in> H \<or> (\<exists>x. threads g ! j = Finished x))"

fun main_ok :: "main_pc \<Rightarrow> (body, world) grp \<Rightarrow> bool" where
  "main_ok In_Run g \<longleftrightarrow> True"
| "main_ok (Join_Rest hs) g \<longleftrightarrow> (\<exists>hs0. pc g = Run_Done Returned hs0) \<and>
     distinct hs \<and> finished_except (set hs) g"
| "main_ok Main_Returned g \<longleftrightarrow> (\<exists>hs0. pc g = Run_Done Returned hs0) \<and> finished_except {} g"
| "main_ok (Main_Unwound p) g \<longleftrightarrow> (\<exists>hs0. pc g = Run_Done (Unwound p) hs0) \<or> run_panic g p"

text \<open>Nothing is accepted before the acceptor, which is spawned last, runs.\<close>

definition acceptor_last :: "setting \<Rightarrow> (body, world) grp \<Rightarrow> bool" where
  "acceptor_last S g \<longleftrightarrow> (length (threads g) \<le> workers S \<longrightarrow>
     accepted (shared g) = [] \<and> all_threads g ! workers S = Running Accepting)"

definition daemon_ok :: "setting \<Rightarrow> daemon \<Rightarrow> bool" where
  "daemon_ok S d \<longleftrightarrow> group_ok (Suc (workers S)) (group_of d) \<and>
     threads_ok S (all_threads (group_of d)) (shared (group_of d)) \<and> main_ok (main_at d) (group_of d) \<and>
     acceptor_last S (group_of d)"

lemma worker_accepts_nothing: "daemon_body S q b w r w' \<Longrightarrow> worker_body b \<Longrightarrow> accepted w' = accepted w"
  by (elim daemon_bodyE) auto

lemma group_step_acceptor_last:
  assumes "threads_ok S (all_threads g) (shared g)" "acceptor_last S g" "group_step (daemon_bodies S) g g'"
  shows "acceptor_last S g'"
proof -
  have change: "acceptor_last S g'"
    if "length (threads g') = length (threads g)"
      "length (threads g) \<le> workers S \<Longrightarrow> all_threads g' ! workers S = all_threads g ! workers S \<and>
         accepted (shared g') = accepted (shared g)"
    using that assms(2) by (auto simp: acceptor_last_def)
  consider "closure_step (daemon_bodies S) g g'" | "exit_step (daemon_bodies S) g g'"
    | "run_step g g' \<or> spurious_wakeup g g'"
    using assms(3) by (auto simp: group_step_def)
  then show ?thesis
  proof cases
    case 1
    then have len: "length (threads g') = length (threads g)" by (auto elim: closure_stepE)
    from 1 show ?thesis
    proof (cases rule: closure_step_change)
      case (body i b q r)
      then have "worker_body b" if "length (threads g) \<le> workers S"
        using assms(1) that unfolding threads_ok_def
        by (metis body_ok_def le_imp_less_Suc less_imp_le order_less_le_trans thread_ok.simps(1))
      with body len show ?thesis using worker_accepts_nothing by (intro change) (auto simp: daemon_bodies_def)
    next
      case (pair i j b c b' c')
      with len show ?thesis by (intro change) (auto simp: daemon_bodies_def elim: daemon_pairE)
    qed
  next
    case 2
    then have len: "length (threads g') = length (threads g)"
      by (auto simp: Context_drop_def notify_all_def elim: exit_stepE)
    from 2 show ?thesis
    proof (cases rule: exit_step_change)
      case (1 i x th w)
      with len show ?thesis by (intro change) (auto simp: daemon_bodies_def daemon_captures_def)
    qed
  next
    case 3
    then have "length (threads g) \<le> length (threads g')" by (auto elim: run_stepE spurious_wakeupE)
    with 3 assms(2) run_step_all_threads spurious_all_threads show ?thesis
      unfolding acceptor_last_def by (metis le_trans)
  qed
qed

lemma daemon_init_ok:
  assumes "daemon_init S d"
  shows "daemon_ok S d"
proof -
  obtain os f env calls where "main_start os f env [] = (calls, Ok (st_config S, group_of d))"
    and at: "main_at d = In_Run"
    using assms by (auto simp: daemon_init_def)
  from main_start_Ok(1) [OF this(1)] have g: "group_of d = start_run
      \<lparr>wg_fs = replicate (workers S) Receiving @ [Accepting], wg_data = None\<rparr>
      \<lparr>tx_alive = True, receivers = {..<workers S}, accepted = [], abandoned = [], served = []\<rparr>" (is "_ = ?g")
    unfolding started_group_def .
  have "group_ok (Suc (workers S)) ?g"
    using start_run_ok [of "\<lparr>wg_fs = replicate (workers S) Receiving @ [Accepting], wg_data = None\<rparr>"] by simp
  moreover have "threads_ok S (all_threads ?g) (shared ?g)"
    by (auto simp: threads_ok_def all_threads_def start_run_def nth_append body_ok_def settled_def flying_def)
  moreover have "acceptor_last S ?g" by (simp add: acceptor_last_def all_threads_def start_run_def nth_append)
  ultimately show ?thesis using g at by (simp add: daemon_ok_def)
qed

lemma group_step_finished_except:
  assumes "group_step B g g'" "finished_except H g" "length (threads g') = length (threads g)"
  shows "finished_except H g'"
  using assms group_step_finished [OF assms(1)] unfolding finished_except_def by metis

lemma group_step_main_ok:
  assumes "group_step B g g'" "group_ok n g" "group_ok n g'" "main_ok m g" "process_alive m"
  shows "main_ok m g'"
proof -
  have "length (threads g') = length (threads g)" if "pc g = Run_Done x hs" for x hs
    using assms(2,3) that group_step_done [OF assms(1) that] by (simp add: group_ok_def)
  then show ?thesis
    using assms(1,4,5) group_step_done [OF assms(1)] group_step_finished_except [OF assms(1)]
    by (cases m) auto
qed

lemma main_step_ok:
  assumes "daemon_ok S d" "main_step d d'"
  shows "daemon_ok S d'"
proof -
  have "main_ok (main_at d') (group_of d)"
    using assms(2)
  proof cases
    case (shutting_down hs)
    with assms(1) obtain i where "length (threads (group_of d)) = Suc (workers S)"
      "threads (group_of d) ! i = Finished Returned" "hs = other_handles (Suc (workers S)) i"
      by (auto simp: daemon_ok_def elim: run_done_state)
    with shutting_down show ?thesis by (auto simp: finished_except_def set_other_handles distinct_other_handles)
  qed (use assms(1) in \<open>auto simp: daemon_ok_def finished_except_def\<close>)
  moreover have "group_of d' = group_of d" using assms(2) by cases simp_all
  ultimately show ?thesis using assms(1) by (simp add: daemon_ok_def)
qed

lemma daemon_step_ok:
  assumes "crossbeam_law (st_channel S)" "daemon_ok S d" "daemon_step S d d'"
  shows "daemon_ok S d'"
  using assms(3) unfolding daemon_step_def
proof (elim disjE conjE exE)
  assume "main_step d d'"
  then show ?thesis using assms(2) by (rule main_step_ok [rotated])
next
  fix g
  assume g: "group_step (daemon_bodies S) (group_of d) g" "d' = d\<lparr>group_of := g\<rparr>"
    and alive: "process_alive (main_at d)"
  have "group_ok (Suc (workers S)) g" using assms(2) g(1) wg.step_inv by (auto simp: daemon_ok_def)
  then show ?thesis
    using g alive assms group_step_threads_ok group_step_main_ok group_step_acceptor_last by (auto simp: daemon_ok_def)
qed

interpretation nsncd: inductive_invariant "daemon_init S" "daemon_step S"
    "\<lambda>d. crossbeam_law (st_channel S) \<longrightarrow> daemon_ok S d" for S
  by unfold_locales (auto intro: daemon_init_ok daemon_step_ok)

section \<open>Draining\<close>

text \<open>
  After the acceptor has left its loop: a worker that leaves \<open>rx.recv()\<close>, or finishes the connection
  it serves.
\<close>

inductive worker_step :: "setting \<Rightarrow> (body, world) grp \<Rightarrow> (body, world) grp \<Rightarrow> bool" for S where
  worker: "i < length (threads g) \<Longrightarrow> threads g ! i = Running b \<Longrightarrow> worker_body b \<Longrightarrow>
     daemon_body S None b (shared g) r w \<Longrightarrow>
     worker_step S g (g\<lparr>threads := (threads g)[i := continue_with r], shared := w\<rparr>)"

inductive_cases worker_stepE: "worker_step S g g'"

definition drain_step :: "setting \<Rightarrow> daemon \<Rightarrow> daemon \<Rightarrow> bool" where
  "drain_step S d d' \<longleftrightarrow> main_step d d' \<or>
     process_alive (main_at d) \<and>
     (\<exists>g. (shutdown_step (daemon_bodies S) (group_of d) g \<or> worker_step S (group_of d) g) \<and>
        d' = d\<lparr>group_of := g\<rparr>)"

text \<open>Some behaviour of the libraries lets \<open>handle_stream\<close> return or panic on the connection.\<close>

definition finishes :: "setting \<Rightarrow> UnixStream \<Rightarrow> bool" where
  "finishes S s \<longleftrightarrow> (\<exists>lib \<in> st_libs S. \<exists>ev. handle_stream (st_target S) lib (st_config S) s = (ev, Ok ()) \<or>
     (\<exists>p. handle_stream (st_target S) lib (st_config S) s = (ev, Panic p)))"

definition ths_draining :: "setting \<Rightarrow> body thread list \<Rightarrow> bool" where
  "ths_draining S ths \<longleftrightarrow> workers S < length ths \<and> \<not> is_running (ths ! workers S) \<and>
     (\<forall>s. Running (Serving s) \<in> set ths \<longrightarrow> finishes S s)"

definition draining :: "setting \<Rightarrow> daemon \<Rightarrow> bool" where
  "draining S d \<longleftrightarrow> crossbeam_law (st_channel S) \<and> ths_draining S (all_threads (group_of d))"

fun body_weight :: "body \<Rightarrow> nat" where
  "body_weight Receiving = 4"
| "body_weight _ = 5"

fun main_fuel :: "nat \<Rightarrow> main_pc \<Rightarrow> nat" where
  "main_fuel n In_Run = n + 3"
| "main_fuel n (Join_Rest hs) = length hs + 1"
| "main_fuel n _ = 0"

definition daemon_fuel :: "setting \<Rightarrow> daemon \<Rightarrow> nat" where
  "daemon_fuel S d = group_fuel body_weight (group_of d) + main_fuel (workers S) (main_at d)"

lemma worker_step_change:
  assumes "worker_step S g g'"
  obtains i b r where "i < length (threads g)" "all_threads g ! i = Running b" "worker_body b"
    "slot g' = slot g" "pc g' = pc g" "all_threads g' = (all_threads g)[i := continue_with r]"
    "r = Inl Receiving \<and> b \<noteq> Receiving \<or> (\<exists>x. r = Inr x)"
  using assms
proof cases
  case (worker i b r w)
  moreover have "r = Inl Receiving \<and> b \<noteq> Receiving \<or> (\<exists>x. r = Inr x)"
    using worker(4,5) by (auto elim: daemon_bodyE)
  ultimately show ?thesis by (intro that [of i b r]) auto
qed

lemma worker_step_group: "worker_step S g g' \<Longrightarrow> group_step (daemon_bodies S) g g'"
  by (elim worker_stepE) (auto simp: group_step_def daemon_bodies_def intro!: closure_step.compute)

lemma worker_step_fuel:
  assumes "worker_step S g g'"
  shows "group_fuel body_weight g' < group_fuel body_weight g"
  using assms
proof (cases rule: worker_step_change)
  case (1 i b r)
  have "body_weight b \<ge> 4" by (cases b) simp_all
  moreover have "body_weight b = 5" if "b \<noteq> Receiving" using that by (cases b) simp_all
  ultimately have "thread_fuel body_weight (continue_with r) < body_weight b"
    using 1(7) by auto
  then show ?thesis using 1 by (intro all_threads_fuel [of i g g' "continue_with r"]) simp_all
qed

lemma ths_draining_update:
  assumes "ths_draining S ths" "i < length ths" "is_running (ths ! i) \<or> \<not> is_running th"
    and "is_running th \<Longrightarrow> i \<noteq> workers S" "\<And>s. th \<noteq> Running (Serving s)"
  shows "ths_draining S (ths[i := th])"
  using assms unfolding ths_draining_def
  by (auto simp: nth_list_update dest!: subsetD [OF set_update_subset_insert])

lemma drain_step_draining:
  assumes "draining S d" "drain_step S d d'"
  shows "draining S d'"
proof -
  have dr: "ths_draining S (all_threads (group_of d))" and law: "crossbeam_law (st_channel S)"
    using assms(1) by (simp_all add: draining_def)
  have len: "i < length (threads g) \<Longrightarrow> i < length (all_threads g)" for i and g :: "(body, world) grp"
    by (simp add: all_threads_def)
  consider "group_of d' = group_of d" | "run_step (group_of d) (group_of d')"
    | "exit_step (daemon_bodies S) (group_of d) (group_of d')" | "worker_step S (group_of d) (group_of d')"
    using assms(2) by (auto simp: drain_step_def shutdown_step_def elim: main_stepE)
  then have "ths_draining S (all_threads (group_of d'))"
  proof cases
    case 2
    then show ?thesis using dr run_step_all_threads [OF 2] by simp
  next
    case 3
    then show ?thesis
    proof (cases rule: exit_step_change)
      case (1 i x th w)
      then have "\<not> is_running th" by (cases th) auto
      then show ?thesis
        unfolding 1(4) using len [OF 1(1)] by (intro ths_draining_update [OF dr]) auto
    qed
  next
    case 4
    then show ?thesis
    proof (cases rule: worker_step_change)
      case (1 i b r)
      then have "i \<noteq> workers S" using dr by (auto simp: ths_draining_def)
      then show ?thesis
        unfolding 1(6) using 1 len [OF 1(1)] by (intro ths_draining_update [OF dr]) auto
    qed
  qed (use dr in simp)
  with law show ?thesis by (simp add: draining_def)
qed

lemma drain_step_fuel:
  assumes "daemon_ok S d" "drain_step S d d'"
  shows "daemon_fuel S d' < daemon_fuel S d"
proof -
  have ok: "group_ok (Suc (workers S)) (group_of d)" using assms(1) by (simp add: daemon_ok_def)
  have "daemon_fuel S d' < daemon_fuel S d" if "main_step d d'"
    using that
  proof cases
    case (shutting_down hs)
    then obtain i where "hs = other_handles (Suc (workers S)) i" using ok by (auto elim: run_done_state)
    then have "length hs \<le> Suc (workers S)" using length_other_handles by simp
    then show ?thesis using shutting_down by (simp add: daemon_fuel_def)
  qed (simp_all add: daemon_fuel_def)
  then show ?thesis
    using assms(2) ok shutdown_step_fuel worker_step_fuel by (auto simp: drain_step_def daemon_fuel_def)
qed

lemma exit_step_enabled:
  assumes "i < length (threads g)" "\<not> is_running (threads g ! i)" "\<not> held g"
  shows "(\<exists>x. threads g ! i = Finished x) \<or> (\<exists>g'. exit_step B g g')"
  using assms by (cases "threads g ! i") (auto intro: exit_step.intros)

lemma running_worker_enabled:
  assumes "threads_ok S (all_threads g) (shared g)" "crossbeam_law (st_channel S)"
    and "ths_draining S (all_threads g)" "i < length (threads g)" "threads g ! i = Running b"
  shows "\<exists>g'. worker_step S g g'"
proof -
  have ok: "thread_ok S (shared g) j (all_threads g ! j)" if "j < length (all_threads g)" for j
    using assms(1) that by (simp add: threads_ok_def)
  have i: "i < length (all_threads g)" using assms(4) by (simp add: all_threads_def)
  have acceptor: "workers S < length (all_threads g)" "\<not> is_running (all_threads g ! workers S)"
    using assms(3) by (simp_all add: ths_draining_def)
  then have closed: "\<not> tx_alive (shared g)"
    using ok [OF acceptor(1)] by (cases "all_threads g ! workers S"; auto elim: exit_ok.elims)
  have "i \<noteq> workers S" using acceptor(2) assms(4,5) by auto
  with ok [OF i] i assms(1,4,5) have b: "worker_body b"
    by (auto simp: threads_ok_def body_ok_def split: if_splits)
  moreover have "\<exists>r w. daemon_body S None b (shared g) r w"
  proof (cases b)
    case (Serving s)
    have "Running (Serving s) \<in> set (all_threads g)"
      using assms(4,5) Serving by (auto simp: all_threads_def in_set_conv_nth)
    then have "finishes S s" using assms(3) by (simp add: ths_draining_def)
    then show ?thesis unfolding Serving finishes_def by (blast intro: daemon_body.serve daemon_body.serve_panic)
  next
    case Receiving
    then show ?thesis using closed assms(2) by (auto simp: crossbeam_law_def intro: daemon_body.recv_closed)
  qed (use b in auto)
  ultimately show ?thesis using assms(4,5) by (blast intro: worker_step.worker)
qed

lemma drain_enabled:
  assumes ok: "daemon_ok S d" and dr: "draining S d" and alive: "process_alive (main_at d)"
  shows "\<exists>d'. drain_step S d d'"
proof -
  have gok: "group_ok (Suc (workers S)) (group_of d)"
    and tok: "threads_ok S (all_threads (group_of d)) (shared (group_of d))"
    and law: "crossbeam_law (st_channel S)" and ths: "ths_draining S (all_threads (group_of d))"
    using ok dr by (simp_all add: daemon_ok_def draining_def)
  have lift: "\<exists>d'. drain_step S d d'"
    if "shutdown_step (daemon_bodies S) (group_of d) g \<or> worker_step S (group_of d) g" for g
    using that alive unfolding drain_step_def by blast
  show ?thesis
  proof (cases "main_at d")
    case In_Run
    show ?thesis
    proof (cases "run_done (group_of d)")
      case True
      then obtain x hs where "pc (group_of d) = Run_Done x hs" by (auto simp: run_done_def)
      then have "\<exists>d'. main_step d d'" using In_Run by (cases x) (auto intro: main_step.intros)
      then show ?thesis by (auto simp: drain_step_def)
    next
      case False
      have "some_exit (group_of d)"
        using ths by (auto simp: ths_draining_def some_exit_def all_threads_def nth_append
            split: if_splits run_pc.splits)
      from run_not_stuck [OF gok this False] show ?thesis using lift by blast
    qed
  next
    case (Join_Rest hs)
    show ?thesis
    proof (cases hs)
      case Nil
      then show ?thesis using Join_Rest by (auto simp: drain_step_def intro: main_step.main_returns)
    next
      case (Cons h hs')
      then have h: "h < length (threads (group_of d))" "\<not> held (group_of d)"
        using ok gok Join_Rest by (auto simp: daemon_ok_def finished_except_def group_ok_def)
      show ?thesis
      proof (cases "is_running (threads (group_of d) ! h)")
        case True
        then obtain b where "threads (group_of d) ! h = Running b" by (cases "threads (group_of d) ! h") auto
        from running_worker_enabled [OF tok law ths h(1) this] show ?thesis using lift by blast
      next
        case False
        from exit_step_enabled [OF h(1) this h(2), of "daemon_bodies S"] show ?thesis
        proof (elim disjE exE)
          fix x assume "threads (group_of d) ! h = Finished x"
          then show ?thesis using Join_Rest Cons by (auto simp: drain_step_def intro: main_step.join_rest)
        next
          fix g assume "exit_step (daemon_bodies S) (group_of d) g"
          then show ?thesis using lift [of g] by (simp add: shutdown_step_def)
        qed
      qed
    qed
  qed (use alive in auto)
qed

interpretation nsncd: bounded_progress "daemon_init S" "daemon_step S"
    "\<lambda>d. crossbeam_law (st_channel S) \<longrightarrow> daemon_ok S d" "drain_step S" "draining S"
    "\<lambda>d. \<not> process_alive (main_at d)" "daemon_fuel S" for S
proof unfold_locales
  fix d d'
  show "drain_step S d d' \<Longrightarrow> daemon_step S d d'"
    by (auto simp: drain_step_def daemon_step_def shutdown_step_def group_step_def
        dest: worker_step_group [unfolded group_step_def])
  show "draining S d \<Longrightarrow> drain_step S d d' \<Longrightarrow> draining S d'" by (rule drain_step_draining)
  show "crossbeam_law (st_channel S) \<longrightarrow> daemon_ok S d \<Longrightarrow> draining S d \<Longrightarrow> drain_step S d d' \<Longrightarrow>
      daemon_fuel S d' < daemon_fuel S d"
    using drain_step_fuel by (simp add: draining_def)
  show "crossbeam_law (st_channel S) \<longrightarrow> daemon_ok S d \<Longrightarrow> draining S d \<Longrightarrow>
      \<not> \<not> process_alive (main_at d) \<Longrightarrow> \<exists>d'. drain_step S d d'"
    using drain_enabled by (simp add: draining_def)
qed

lemma daemon_fuel_le:
  assumes "daemon_ok S d"
  shows "daemon_fuel S d \<le> 17 + 7 * workers S"
proof -
  have gok: "group_ok (Suc (workers S)) (group_of d)" using assms by (simp add: daemon_ok_def)
  have "body_weight b \<le> 5" for b by (cases b) simp_all
  from group_fuel_le [OF gok this] have "group_fuel body_weight (group_of d) \<le> 14 + 6 * workers S" by simp
  moreover have "main_fuel (workers S) (main_at d) \<le> workers S + 3"
  proof (cases "main_at d")
    case (Join_Rest hs)
    with assms have "distinct hs" "set hs \<subseteq> {..<length (threads (group_of d))}"
      by (auto simp: daemon_ok_def finished_except_def)
    then have "length hs \<le> length (threads (group_of d))"
      using card_mono [of "{..<length (threads (group_of d))}" "set hs"] by (simp add: distinct_card)
    with gok Join_Rest show ?thesis by (simp add: group_ok_def)
  qed simp_all
  ultimately show ?thesis by (simp add: daemon_fuel_def)
qed

section \<open>A connection that ends the daemon\<close>

lemma lift_group_steps:
  "(group_step (daemon_bodies S))\<^sup>*\<^sup>* g g' \<Longrightarrow> group_of d = g \<Longrightarrow> process_alive (main_at d) \<Longrightarrow>
   (daemon_step S)\<^sup>*\<^sup>* d (d\<lparr>group_of := g'\<rparr>)"
proof (induction rule: rtranclp_induct)
  case base
  then have "d\<lparr>group_of := g\<rparr> = d" by (cases d) simp
  then show ?case by simp
next
  case (step u g')
  then have "daemon_step S (d\<lparr>group_of := u\<rparr>) (d\<lparr>group_of := g'\<rparr>)"
    unfolding daemon_step_def by (intro disjI2) (auto intro!: exI [of _ g'])
  with step show ?case by (simp add: rtranclp.rtrancl_into_rtrancl)
qed

text \<open>A step of one closure, with what it leaves unchanged.\<close>

lemma closure_alone:
  assumes "i < length (threads g)" "threads g ! i = Running b" "\<not> held g" "slot g = None"
    and "daemon_body S None b (shared g) r w \<or> daemon_body S (Some False) b (shared g) r w"
  shows "\<exists>g'. group_step (daemon_bodies S) g g' \<and> slot g' = None \<and> \<not> held g' \<and>
    threads g' = (threads g)[i := continue_with r] \<and> shared g' = w"
proof -
  have "closure_step (daemon_bodies S) g (g\<lparr>threads := (threads g)[i := continue_with r], shared := w\<rparr>)"
    using assms closure_step.compute [of i g b "daemon_bodies S" r w]
      closure_step.query [of i g b "daemon_bodies S" r w]
    by (auto simp: daemon_bodies_def is_shutdown_def)
  then show ?thesis using assms(3,4)
    by (intro exI [of _ "g\<lparr>threads := (threads g)[i := continue_with r], shared := w\<rparr>"]) (simp add: group_step_def)
qed

lemma release_guard:
  assumes "group_ok n g" "slot g = None"
  shows "\<exists>g'. (group_step B)\<^sup>*\<^sup>* g g' \<and> slot g' = None \<and> \<not> held g' \<and> threads g' = threads g \<and> shared g' = shared g"
proof (cases "held g")
  case True
  then have "pc g = Testing" using assms by (cases "pc g") (auto simp: group_ok_def pc_ok_def)
  then have "group_step B g (g\<lparr>pc := Waiting, held := False, signalled := False\<rparr>)"
    using assms(2) by (auto simp: group_step_def intro: run_step.wait)
  then show ?thesis using assms(2)
    by (intro exI [of _ "g\<lparr>pc := Waiting, held := False, signalled := False\<rparr>"]) (simp add: r_into_rtranclp)
qed (use assms in blast)

text \<open>An idle worker and an acceptor in its loop: a connection can reach the worker.\<close>

lemma connection_reaches_worker:
  assumes "crossbeam_law (st_channel S)" "group_ok (Suc (workers S)) g" "threads_ok S (all_threads g) (shared g)"
    and "slot g = None" "workers S < length (threads g)" "threads g ! workers S = Running Accepting"
    and "i < workers S" "threads g ! i = Running Receiving"
  shows "\<exists>g'. (group_step (daemon_bodies S))\<^sup>*\<^sup>* g g' \<and> slot g' = None \<and> \<not> held g' \<and>
    i < length (threads g') \<and> threads g' ! i = Running (Serving s)"
proof -
  let ?n = "workers S" and ?G = "group_step (daemon_bodies S)"
  have "i < length (all_threads g)" using assms(5,7) by (simp add: all_threads_def)
  then have "thread_ok S (shared g) i (all_threads g ! i)" using assms(3) by (simp add: threads_ok_def)
  then have rx: "i \<in> receivers (shared g)" using assms(5,7,8) by (simp add: body_ok_def)
  obtain g0 where g0: "?G\<^sup>*\<^sup>* g g0" "slot g0 = None" "\<not> held g0" "threads g0 = threads g" "shared g0 = shared g"
    using release_guard [OF assms(2,4)] by blast
  obtain g1 where g1: "?G g0 g1" "slot g1 = None" "\<not> held g1"
    "threads g1 = (threads g)[?n := Running (Checking (Inr s))]" "receivers (shared g1) = receivers (shared g)"
    using closure_alone [OF _ _ g0(3,2) disjI1 [OF daemon_body.accept], of ?n] g0 assms(5,6) by force
  obtain g2 where g2: "?G g1 g2" "slot g2 = None" "\<not> held g2"
    "threads g2 = (threads g)[?n := Running (Sending s)]" "receivers (shared g2) = receivers (shared g)"
    using closure_alone [OF _ _ g1(3,2) disjI2 [OF daemon_body.hand_over], of ?n s] g1 assms(5) by force
  let ?g3 = "g2\<lparr>threads := (threads g2)[?n := Running Accepting, i := Running (Serving s)], shared := shared g2\<rparr>"
  have "daemon_pair S i (Sending s) Receiving (shared g2) Accepting (Serving s) (shared g2)"
    using rx g2(5) assms(1) by (intro daemon_pair.handed) (simp add: crossbeam_law_def)
  then have "closure_step (daemon_bodies S) g2 ?g3"
    using g2 assms(5-8) by (intro closure_step.communicate) (auto simp: daemon_bodies_def)
  then have "?G g2 ?g3" by (simp add: group_step_def)
  with g0(1) g1(1) g2(1) have "?G\<^sup>*\<^sup>* g ?g3" by (meson rtranclp.rtrancl_into_rtrancl)
  moreover have "slot ?g3 = None" "\<not> held ?g3" "i < length (threads ?g3)" "threads ?g3 ! i = Running (Serving s)"
    using g2 assms(5,7) by auto
  ultimately show ?thesis by blast
qed

lemma serve_fatal_connection:
  assumes "crossbeam_law (st_channel S)" "group_ok (Suc (workers S)) g" "threads_ok S (all_threads g) (shared g)"
    and "slot g = None" "workers S < length (threads g)" "threads g ! workers S = Running Accepting"
    and "i < workers S" "threads g ! i = Running Receiving"
    and "lib \<in> st_libs S" "handle_stream (st_target S) lib (st_config S) s = (ev, Panic p)"
  shows "\<exists>g'. (group_step (daemon_bodies S))\<^sup>*\<^sup>* g g' \<and> slot g' = Some i \<and> exit_of (threads g' ! i) = Some (Unwound p)"
proof -
  let ?G = "group_step (daemon_bodies S)"
  obtain g3 where g3: "?G\<^sup>*\<^sup>* g g3" "slot g3 = None" "\<not> held g3" "i < length (threads g3)"
    "threads g3 ! i = Running (Serving s)"
    using connection_reaches_worker [OF assms(1-8)] by blast
  obtain g4 where g4: "?G g3 g4" "slot g4 = None" "\<not> held g4" "threads g4 = (threads g3)[i := Dropping (Unwound p)]"
    using closure_alone [OF g3(4,5,3,2) disjI1 [OF daemon_body.serve_panic [OF assms(9,10)]]] by auto
  have "?G g4 (Context_drop i (Unwound p) g4)"
    using g4 g3(4) exit_step.drop_context [of i g4 "Unwound p"] by (simp add: group_step_def)
  with g3(1) g4(1) have "?G\<^sup>*\<^sup>* g (Context_drop i (Unwound p) g4)"
    by (meson rtranclp.rtrancl_into_rtrancl)
  moreover have "slot (Context_drop i (Unwound p) g4) = Some i"
    "exit_of (threads (Context_drop i (Unwound p) g4) ! i) = Some (Unwound p)"
    using g4 g3(4) by (simp_all add: Context_drop_def)
  ultimately show ?thesis by blast
qed

lemma serve_connection:
  assumes "crossbeam_law (st_channel S)" "group_ok (Suc (workers S)) g" "threads_ok S (all_threads g) (shared g)"
    and "slot g = None" "workers S < length (threads g)" "threads g ! workers S = Running Accepting"
    and "i < workers S" "threads g ! i = Running Receiving"
    and "lib \<in> st_libs S" "handle_stream (st_target S) lib (st_config S) s = (ev, Ok ())"
  shows "\<exists>g'. (group_step (daemon_bodies S))\<^sup>*\<^sup>* g g' \<and> (s, ev) \<in> set (served (shared g'))"
proof -
  let ?G = "group_step (daemon_bodies S)"
  obtain g3 where g3: "?G\<^sup>*\<^sup>* g g3" "slot g3 = None" "\<not> held g3" "i < length (threads g3)"
    "threads g3 ! i = Running (Serving s)"
    using connection_reaches_worker [OF assms(1-8)] by blast
  obtain g4 where "?G g3 g4" "(s, ev) \<in> set (served (shared g4))"
    using closure_alone [OF g3(4,5,3,2) disjI1 [OF daemon_body.serve [OF assms(9,10)]]] by force
  with g3(1) show ?thesis by (meson rtranclp.rtrancl_into_rtrancl)
qed

lemma reachable_daemon_ok:
  "crossbeam_law (st_channel S) \<Longrightarrow> reachable (daemon_init S) (daemon_step S) d \<Longrightarrow> daemon_ok S d"
  using nsncd.reachable_inv by blast

text \<open>If \<open>main\<close> unwinds, then with a panic of \<open>handle_stream\<close> or because a thread was refused.\<close>

lemma run_unwound_crashed:
  assumes "daemon_ok S d" and run: "pc (group_of d) = Run_Done (Unwound p) hs"
  shows "crashed S (shared (group_of d)) p"
proof -
  have gok: "group_ok (Suc (workers S)) (group_of d)"
    and tok: "threads_ok S (all_threads (group_of d)) (shared (group_of d))"
    using assms(1) by (simp_all add: daemon_ok_def)
  obtain i where "i < Suc (workers S)" "length (threads (group_of d)) = Suc (workers S)"
    "threads (group_of d) ! i = Finished (Unwound p)"
    using run_done_state [OF gok run] by blast
  then have "thread_ok S (shared (group_of d)) i (Finished (Unwound p))"
    using tok length_all_threads [OF gok] by (metis nth_all_threads threads_ok_def)
  then show ?thesis by simp
qed

lemma thread_refused:
  assumes "daemon_ok S d" "run_panic (group_of d) p"
  shows "p = Thread_Spawn \<and> length (threads (group_of d)) \<le> workers S \<and> accepted (shared (group_of d)) = [] \<and>
    all_threads (group_of d) ! workers S = Running Accepting"
proof -
  have "p = Thread_Spawn \<and> length (threads (group_of d)) < Suc (workers S)"
    using assms run_panic_iff by (auto simp: daemon_ok_def)
  then show ?thesis using assms(1) by (simp add: daemon_ok_def acceptor_last_def)
qed

lemma main_unwound_cases:
  assumes "daemon_ok S d" "main_at d = Main_Unwound p"
  shows "crashed S (shared (group_of d)) p \<or>
    p = Thread_Spawn \<and> length (threads (group_of d)) \<le> workers S \<and> accepted (shared (group_of d)) = [] \<and>
    all_threads (group_of d) ! workers S = Running Accepting"
proof -
  have "(\<exists>hs. pc (group_of d) = Run_Done (Unwound p) hs) \<or> run_panic (group_of d) p"
    using assms by (simp add: daemon_ok_def)
  then show ?thesis using run_unwound_crashed [OF assms(1)] thread_refused [OF assms(1)] by blast
qed

text \<open>When \<open>main\<close> has joined the other threads, none is in its loop and none holds a connection.\<close>

lemma joined_all:
  assumes "daemon_ok S d" "main_at d = Join_Rest [] \<or> main_at d = Main_Returned"
  shows "all_threads (group_of d) = threads (group_of d)" "length (threads (group_of d)) = Suc (workers S)"
    "\<forall>j \<le> workers S. \<exists>x. all_threads (group_of d) ! j = Finished x" "flying (all_threads (group_of d)) = {#}"
proof -
  let ?g = "group_of d"
  obtain hs where run: "pc ?g = Run_Done Returned hs" and fin: "finished_except {} ?g"
    and gok: "group_ok (Suc (workers S)) ?g"
    using assms by (auto simp: daemon_ok_def)
  show len: "length (threads ?g) = Suc (workers S)" using run gok by (simp add: group_ok_def)
  show all: "all_threads ?g = threads ?g" using run by (simp add: all_threads_def)
  show fin_all: "\<forall>j \<le> workers S. \<exists>x. all_threads ?g ! j = Finished x"
    using fin len all by (simp add: finished_except_def)
  have "in_flight th = []" if "th \<in> set (threads ?g)" for th
    using that fin_all len all by (fastforce simp: in_set_conv_nth less_Suc_eq_le)
  then show "flying (all_threads ?g) = {#}" using all by (simp add: flying_def)
qed

text \<open>A small instance: the default configuration and libraries that know one user.\<close>

definition example_setting :: setting where
  "example_setting = \<lparr>st_target = linux_release, st_config = Config_default, st_channel = rendezvous,
     st_libs = {example_libs}\<rparr>"

definition idle_daemon :: daemon where
  "idle_daemon = \<lparr>group_of = \<lparr>slot = None, held = False, signalled = False,
     threads = replicate 8 (Running Receiving) @ [Running Accepting], pc = Spawning [],
     shared = \<lparr>tx_alive = True, receivers = {..<8}, accepted = [], abandoned = [], served = []\<rparr>\<rparr>,
   main_at = In_Run\<rparr>"

lemma example_setting_simps [simp]:
  "worker_count Config_default = 8" "crossbeam_law (st_channel example_setting)"
  "st_libs example_setting = {example_libs}" "st_target example_setting = linux_release"
  "st_config example_setting = Config_default"
  by (simp_all add: example_setting_def Config_default_def rendezvous_law)

lemma idle_daemon_reachable: "reachable (daemon_init example_setting) (daemon_step example_setting) idle_daemon"
proof -
  let ?fs = "replicate 8 Receiving @ [Accepting]"
  let ?w = "\<lparr>tx_alive = True, receivers = {..<8}, accepted = [], abandoned = [], served = []\<rparr>"
  let ?d = "\<lparr>group_of = start_run \<lparr>wg_fs = ?fs, wg_data = None\<rparr> ?w, main_at = In_Run\<rparr>"
  have "daemon_init example_setting ?d"
    using example_startup by (auto simp: daemon_init_def started_group_def)
  then have "reachable (daemon_init example_setting) (daemon_step example_setting) ?d" by (rule reach_init)
  moreover have "(daemon_step example_setting)\<^sup>*\<^sup>* ?d (?d\<lparr>group_of := (group_of ?d)\<lparr>threads := threads (group_of ?d) @ map Running ?fs,
      pc := Spawning []\<rparr>\<rparr>)"
    by (rule lift_group_steps [OF spawn_all]) (simp_all add: start_run_def)
  then have "(daemon_step example_setting)\<^sup>*\<^sup>* ?d idle_daemon"
    by (simp add: start_run_def idle_daemon_def)
  ultimately show ?thesis by (rule reachable_steps [rotated])
qed

text \<open>An error of \<open>accept\<close> ends the acceptor's loop and starts the draining.\<close>

lemma accept_error_drains:
  assumes "crossbeam_law (st_channel S)" "reachable (daemon_init S) (daemon_step S) d" "main_at d = In_Run"
    and "slot (group_of d) = None" "\<not> held (group_of d)" "workers S < length (threads (group_of d))"
    and "threads (group_of d) ! workers S = Running Accepting"
    and "\<And>s. Running (Serving s) \<notin> set (all_threads (group_of d))"
  shows "\<exists>d'. (daemon_step S)\<^sup>*\<^sup>* d d' \<and> draining S d' \<and> main_at d' = In_Run \<and>
    accepted (shared (group_of d')) = accepted (shared (group_of d))"
proof -
  let ?n = "workers S" and ?G = "group_step (daemon_bodies S)" and ?g = "group_of d"
  obtain g1 where g1: "?G ?g g1" "slot g1 = None" "\<not> held g1"
    "threads g1 = (threads ?g)[?n := Running (Checking (Inl OtherKind))]" "shared g1 = shared ?g"
    using closure_alone [OF assms(6,7,5,4) disjI1 [OF daemon_body.accept_fails]] by force
  obtain g2 where g2: "?G g1 g2" "slot g2 = None" "\<not> held g2"
    "threads g2 = (threads ?g)[?n := Running Leaving]" "shared g2 = shared ?g"
    using closure_alone [OF _ _ g1(3,2) disjI2 [OF daemon_body.accept_error], of ?n OtherKind] g1 assms(6) by force
  obtain g3 where g3: "?G g2 g3" "threads g3 = (threads ?g)[?n := Dropping Returned]"
    "accepted (shared g3) = accepted (shared ?g)"
    using closure_alone [OF _ _ g2(3,2) disjI1 [OF daemon_body.drop_tx], of ?n] g2 assms(6) by force
  have steps: "?G\<^sup>*\<^sup>* ?g g3" using g1(1) g2(1) g3(1) by (meson converse_rtranclp_into_rtranclp rtranclp.rtrancl_refl)
  have gok: "group_ok (Suc ?n) ?g" using reachable_daemon_ok [OF assms(1,2)] by (simp add: daemon_ok_def)
  then have "group_ok (Suc ?n) g3" by (rule wg.steps_inv [OF steps])
  then have "all_threads g3 = threads g3" "all_threads ?g = threads ?g"
    using gok g3(2) assms(6) all_threads_spawned [of "Suc ?n" g3] all_threads_spawned [of "Suc ?n" ?g] by simp_all
  then have "ths_draining S (all_threads g3)"
    using g3(2) assms(6,8) by (auto simp: ths_draining_def dest!: subsetD [OF set_update_subset_insert])
  then show ?thesis using lift_group_steps [OF steps refl] assms(1,3) g3(3)
    by (intro exI [of _ "d\<lparr>group_of := g3\<rparr>"]) (simp add: draining_def)
qed

lemma drain_accepts_nothing:
  assumes "(drain_step S)\<^sup>*\<^sup>* d d'"
  shows "accepted (shared (group_of d')) = accepted (shared (group_of d))"
  using assms
proof (induction rule: rtranclp_induct)
  case (step u v)
  from step(2) have "accepted (shared (group_of v)) = accepted (shared (group_of u))"
    unfolding drain_step_def shutdown_step_def
    by (auto elim!: main_stepE exit_stepE run_stepE worker_stepE daemon_bodyE
        simp: Context_drop_def notify_all_def daemon_bodies_def daemon_captures_def)
  with step show ?case by simp
qed simp

lemma idle_daemon_drains:
  "\<exists>d. (daemon_step example_setting)\<^sup>*\<^sup>* idle_daemon d \<and> draining example_setting d \<and> main_at d = In_Run \<and>
     accepted (shared (group_of d)) = accepted (shared (group_of idle_daemon))"
  by (rule accept_error_drains [OF _ idle_daemon_reachable])
    (simp_all add: idle_daemon_def all_threads_def nth_append)

lemma idle_daemon_returns:
  "\<exists>d. reachable (daemon_init example_setting) (daemon_step example_setting) d \<and> main_at d = Main_Returned"
proof -
  let ?S = example_setting
  obtain d where d: "(daemon_step ?S)\<^sup>*\<^sup>* idle_daemon d" "draining ?S d" "accepted (shared (group_of d)) = []"
    using idle_daemon_drains by (auto simp: idle_daemon_def)
  then have r: "reachable (daemon_init ?S) (daemon_step ?S) d"
    using idle_daemon_reachable by (blast intro: reachable_steps)
  then obtain d' where d': "(drain_step ?S)\<^sup>*\<^sup>* d d'" "\<not> process_alive (main_at d')"
    using nsncd.reaches_goal [of ?S d] nsncd.reachable_inv [OF r] d(2) by blast
  have r': "reachable (daemon_init ?S) (daemon_step ?S) d'"
    by (rule reachable_steps [OF nsncd.internal_steps [OF d'(1)] r])
  have "accepted (shared (group_of d')) = []" using drain_accepts_nothing [OF d'(1)] d(3) by simp
  then have "served (shared (group_of d')) = []"
    using reachable_daemon_ok [OF _ r'] by (auto simp: daemon_ok_def threads_ok_def settled_def)
  then have "\<not> crashed ?S (shared (group_of d')) p" for p by (simp add: crashed_def)
  moreover have "draining ?S d'"
    using d'(1) d(2) by (induction rule: rtranclp_induct) (auto intro: drain_step_draining)
  ultimately have "main_at d' \<noteq> Main_Unwound p" for p
    using main_unwound_cases [OF reachable_daemon_ok [OF _ r'], of p] by (auto simp: draining_def ths_draining_def)
  with d'(2) have "main_at d' = Main_Returned" by (cases "main_at d'") auto
  with r' show ?thesis by blast
qed

lemma fatal_header_unwinds:
  fixes s :: UnixStream
  assumes "crossbeam_law (st_channel S)" "reachable (daemon_init S) (daemon_step S) d" "main_at d = In_Run"
    and "slot (group_of d) = None" "workers S < length (threads (group_of d))"
    and "threads (group_of d) ! workers S = Running Accepting"
    and "i < workers S" "threads (group_of d) ! i = Running Receiving"
    and "lib \<in> st_libs S" "from_primitive_law (lib_from_i32 lib)"
    and "us_incoming s = Inr (request_header (st_target S) ty v @ rest)" "- 12 \<le> sint v" "sint v < 0"
  shows "\<exists>d'. (daemon_step S)\<^sup>*\<^sup>* d d' \<and> main_at d' = Main_Unwound Slice_Index"
proof -
  have ok: "group_ok (Suc (workers S)) (group_of d)"
    "threads_ok S (all_threads (group_of d)) (shared (group_of d))"
    using reachable_daemon_ok [OF assms(1,2)] by (simp_all add: daemon_ok_def)
  have "parse (st_target S) (lib_from_i32 lib) (take 4096 (request_header (st_target S) ty v @ rest)) = Panic Slice_Index"
    using assms(12,13) header_prefix [of "request_header (st_target S) ty v @ rest"]
    by (intro parse_Panic_iff [OF assms(10), THEN iffD2]) blast
  then have "snd (handle_stream (st_target S) lib (st_config S) s) = Panic Slice_Index"
    using assms(11) by (auto simp: handle_stream_Panic obind_eq_Panic)
  then obtain ev where fatal: "handle_stream (st_target S) lib (st_config S) s = (ev, Panic Slice_Index)"
    by (metis prod.collapse)
  obtain g1 where g1: "(group_step (daemon_bodies S))\<^sup>*\<^sup>* (group_of d) g1" "slot g1 = Some i"
    "exit_of (threads g1 ! i) = Some (Unwound Slice_Index)"
    using serve_fatal_connection [OF assms(1) ok assms(4-9) fatal] by blast
  have "group_ok (Suc (workers S)) g1" using wg.steps_inv [OF g1(1) ok(1)] .
  from slot_decides_run [OF this g1(2,3)] obtain g2 hs where
    "(group_step (daemon_bodies S))\<^sup>*\<^sup>* g1 g2" "pc g2 = Run_Done (Unwound Slice_Index) hs" by blast
  then have steps: "(daemon_step S)\<^sup>*\<^sup>* d (d\<lparr>group_of := g2\<rparr>)"
    and "main_step (d\<lparr>group_of := g2\<rparr>) (d\<lparr>group_of := g2, main_at := Main_Unwound Slice_Index\<rparr>)"
    using lift_group_steps [OF rtranclp_trans [OF g1(1)] refl, where g' = g2] assms(3)
      main_step.resume_unwind [of "d\<lparr>group_of := g2\<rparr>" Slice_Index hs] by simp_all
  then have "daemon_step S (d\<lparr>group_of := g2\<rparr>) (d\<lparr>group_of := g2, main_at := Main_Unwound Slice_Index\<rparr>)"
    by (simp add: daemon_step_def)
  from rtranclp.rtrancl_into_rtrancl [OF steps this] show ?thesis by force
qed

lemma idle_daemon_unwinds:
  "\<exists>d. reachable (daemon_init example_setting) (daemon_step example_setting) d \<and> main_at d = Main_Unwound Slice_Index"
proof -
  have "\<exists>d'. (daemon_step example_setting)\<^sup>*\<^sup>* idle_daemon d' \<and> main_at d' = Main_Unwound Slice_Index"
    by (rule fatal_header_unwinds [OF _ idle_daemon_reachable, where i = 0 and lib = example_libs
          and s = "peer_sending (request_header linux_release GETPWBYNAME (- 1))" and v = "- 1"
          and ty = GETPWBYNAME and rest = "[]"])
      (simp_all add: idle_daemon_def nth_append example_libs_def from_i32_by_search_law peer_sending_def)
  then show ?thesis using idle_daemon_reachable by (blast intro: reachable_steps)
qed

subsection \<open>What was done to the served connections\<close>

definition log_ok :: "setting \<Rightarrow> world \<Rightarrow> bool" where
  "log_ok S w \<longleftrightarrow> (\<forall>(s, ev) \<in> set (served w). \<exists>lib \<in> st_libs S.
     fst (handle_stream (st_target S) lib (st_config S) s) = ev)"

lemma daemon_body_log: "daemon_body S q b w r w' \<Longrightarrow> log_ok S w \<Longrightarrow> log_ok S w'"
  by (elim daemon_bodyE) (auto simp: log_ok_def, (metis fst_conv)+)

lemma group_step_log:
  assumes "group_step (daemon_bodies S) g g'" "log_ok S (shared g)"
  shows "log_ok S (shared g')"
proof -
  have "log_ok S (shared g')" if "closure_step (daemon_bodies S) g g'"
    using that assms(2)
    by (cases rule: closure_step_change) (auto simp: daemon_bodies_def elim: daemon_pairE intro: daemon_body_log)
  moreover have "log_ok S (shared g')" if "exit_step (daemon_bodies S) g g'"
    using that assms(2)
    by (cases rule: exit_step_change) (auto simp: daemon_bodies_def daemon_captures_def log_ok_def split: if_splits)
  ultimately show ?thesis
    using assms run_step_all_threads spurious_all_threads unfolding group_step_def by metis
qed

interpretation nsncd_log: inductive_invariant "daemon_init S" "daemon_step S" "\<lambda>d. log_ok S (shared (group_of d))" for S
proof unfold_locales
  fix d d'
  show "daemon_init S d \<Longrightarrow> log_ok S (shared (group_of d))"
    by (auto simp: daemon_init_def log_ok_def start_run_def started_group_def dest!: main_start_Ok(1))
  show "log_ok S (shared (group_of d)) \<Longrightarrow> daemon_step S d d' \<Longrightarrow> log_ok S (shared (group_of d'))"
    using group_step_log by (auto simp: daemon_step_def elim: main_stepE)
qed

section \<open>Properties of the daemon\<close>

text \<open>
  C11. At every moment, the connections accepted so far are exactly those that have been served, those
  that were abandoned and those a thread holds: none is lost and none is handed to two workers.  At
  most one is ever abandoned, because the acceptor then leaves its loop.
\<close>

theorem connections_conserved:
  assumes "crossbeam_law (st_channel S)" "reachable (daemon_init S) (daemon_step S) d"
    and "w = shared (group_of d)"
  shows "mset (accepted w) = mset (map fst (served w)) + mset (abandoned w) +
      mset (concat (map in_flight (all_threads (group_of d)))) \<and> length (abandoned w) \<le> 1"
  using reachable_daemon_ok [OF assms(1,2)] assms(3)
  by (simp add: daemon_ok_def threads_ok_def settled_def flying_def)

theorem connections_conserved_witness:
  "mset (concat (map in_flight (all_threads (group_of idle_daemon)))) = {#}"
  using connections_conserved [OF _ idle_daemon_reachable refl] by (simp add: idle_daemon_def)

text \<open>
  C9. \<open>main\<close> returns \<open>Ok\<close> only after every thread has finished and the channel is closed; by then every
  connection that was accepted has been served, but for at most one.
\<close>

theorem main_returns_after_all:
  assumes "crossbeam_law (st_channel S)" "reachable (daemon_init S) (daemon_step S) d"
    and "main_at d = Main_Returned"
  shows "length (threads (group_of d)) = Suc (workers S) \<and>
    (\<forall>j \<le> workers S. \<exists>x. threads (group_of d) ! j = Finished x) \<and>
    \<not> tx_alive (shared (group_of d)) \<and>
    mset (accepted (shared (group_of d))) =
      mset (map fst (served (shared (group_of d)))) + mset (abandoned (shared (group_of d))) \<and>
    length (abandoned (shared (group_of d))) \<le> 1"
proof -
  let ?g = "group_of d"
  have ok: "daemon_ok S d" by (rule reachable_daemon_ok [OF assms(1,2)])
  then have tok: "threads_ok S (all_threads ?g) (shared ?g)" by (simp add: daemon_ok_def)
  note joined = joined_all [OF ok disjI2 [OF assms(3)]]
  then obtain x where x: "threads ?g ! workers S = Finished x" by auto
  have "thread_ok S (shared ?g) (workers S) (threads ?g ! workers S)"
    using tok joined(1,2) by (simp add: threads_ok_def)
  then have "\<not> tx_alive (shared ?g)" using x by (cases x) simp_all
  with joined tok show ?thesis by (simp add: threads_ok_def settled_def)
qed

theorem main_returns_after_all_witness:
  "\<exists>d :: daemon. length (threads (group_of d)) = 9 \<and> (\<forall>j \<le> 8. \<exists>x. threads (group_of d) ! j = Finished x) \<and>
     \<not> tx_alive (shared (group_of d)) \<and> main_at d = Main_Returned"
proof -
  obtain d where "reachable (daemon_init example_setting) (daemon_step example_setting) d" "main_at d = Main_Returned"
    using idle_daemon_returns by blast
  with main_returns_after_all [OF _ this] show ?thesis by (intro exI [of _ d]) simp
qed

text \<open>
  C15. Every way in which \<open>main\<close> can unwind, as long as the log drains work.  Start-up panics only over a variable of the environment that
  is not Unicode, and then before it has touched the socket.  Once \<open>run\<close> is called, \<open>main\<close> unwinds only
  with a panic that a connection it served has raised in \<open>handle_stream\<close>, or because the system
  refused a thread; in the latter case the acceptor does not run yet and no connection has been
  accepted.  Nothing that the acceptor, the channel, the condition variable or the shutdown does unwinds
  \<open>main\<close>.
\<close>

theorem main_unwinds_reasons:
  assumes "crossbeam_law (st_channel S)" "from_primitive_law f"
  shows "(main_start os f env [] = (calls, Panic p) \<longrightarrow>
      p = Not_Unicode \<and> (\<exists>k v. (k, v) \<in> set env \<and> \<not> (is_unicode k \<and> is_unicode v)) \<and>
      (\<forall>c \<in> set calls. (\<exists>s. c = Dlsym s) \<or> (\<exists>ptr. c = Call_Symbol ptr do_nothing))) \<and>
    (reachable (daemon_init S) (daemon_step S) d \<and> main_at d = Main_Unwound p \<longrightarrow>
      (\<exists>s ev lib. (s, ev) \<in> set (served (shared (group_of d))) \<and> lib \<in> st_libs S \<and>
        handle_stream (st_target S) lib (st_config S) s = (ev, Panic p)) \<or>
      p = Thread_Spawn \<and> length (threads (group_of d)) \<le> workers S \<and> accepted (shared (group_of d)) = [])"
proof -
  have "p = Not_Unicode \<and> (\<exists>k v. (k, v) \<in> set env \<and> \<not> (is_unicode k \<and> is_unicode v)) \<and>
      (\<forall>c \<in> set calls. (\<exists>s. c = Dlsym s) \<or> (\<exists>ptr. c = Call_Symbol ptr do_nothing))"
    if "main_start os f env [] = (calls, Panic p)"
  proof -
    have env: "from_env env = Panic p" and calls: "calls = nscd_calls os"
      using main_start_Panic [OF assms(2) that] by simp_all
    have "\<forall>c \<in> set calls. (\<exists>s. c = Dlsym s) \<or> (\<exists>ptr. c = Call_Symbol ptr do_nothing)"
      by (simp add: calls nscd_calls_def Let_def)
    with from_env_Panic_var [OF env] show ?thesis by blast
  qed
  moreover have "crashed S (shared (group_of d)) p \<or>
      p = Thread_Spawn \<and> length (threads (group_of d)) \<le> workers S \<and> accepted (shared (group_of d)) = []"
    if "reachable (daemon_init S) (daemon_step S) d \<and> main_at d = Main_Unwound p"
    using that main_unwound_cases [OF reachable_daemon_ok [OF assms(1)], of d p] by blast
  ultimately show ?thesis unfolding crashed_def by blast
qed

theorem main_unwinds_reasons_witness:
  "(\<exists>s ev. handle_stream linux_release example_libs Config_default s = (ev, Panic Slice_Index)) \<and>
   (\<exists>calls. main_start (\<lparr>os_dlsym = (\<lambda>_. 0), os_error = (\<lambda>_ _. None)\<rparr>) from_i32_by_search
      [(''LANG'', [CHR 0xFF])] [] = (calls, Panic Not_Unicode) \<and> Notify_Ready \<notin> set calls)"
proof -
  obtain d where d: "reachable (daemon_init example_setting) (daemon_step example_setting) d"
    "main_at d = Main_Unwound Slice_Index"
    using idle_daemon_unwinds by blast
  let ?os = "\<lparr>os_dlsym = (\<lambda>_. 0), os_error = (\<lambda>_ _. None)\<rparr>"
  have "\<not> is_unicode [CHR 0xFF]" by code_simp
  then have "from_env [(''LANG'', [CHR 0xFF])] = Panic Not_Unicode"
    by (simp add: from_env_def ignore_var_def)
  then obtain calls where calls: "main_start ?os from_i32_by_search [(''LANG'', [CHR 0xFF])] [] = (calls, Panic Not_Unicode)"
    by (simp add: main_start_def st_bind_def st_pure_def disable_internal_nscd_calls)
  note reasons = main_unwinds_reasons [OF example_setting_simps(2) from_i32_by_search_law]
  have "Notify_Ready \<notin> set calls"
    using reasons [THEN conjunct1, rule_format, OF calls] by auto
  moreover have "\<exists>s ev. handle_stream linux_release example_libs Config_default s = (ev, Panic Slice_Index)"
    using reasons [THEN conjunct2, rule_format, of d Slice_Index] d by auto
  ultimately show ?thesis using calls by blast
qed

text \<open>
  C16. As long as the acceptor holds the sending end of the channel no thread has returned: a worker
  ends its loop only after the acceptor has closed the channel.  So \<open>run\<close> reports a normal exit only
  after that.
\<close>

theorem open_channel_keeps_workers:
  assumes "crossbeam_law (st_channel S)" "reachable (daemon_init S) (daemon_step S) d"
    and "tx_alive (shared (group_of d))"
  shows "(\<forall>j < length (threads (group_of d)). exit_of (threads (group_of d) ! j) \<noteq> Some Returned) \<and>
    (\<nexists>hs. pc (group_of d) = Run_Done Returned hs)"
proof -
  let ?g = "group_of d"
  have ok: "threads_ok S (all_threads ?g) (shared ?g)" "group_ok (Suc (workers S)) ?g"
    using reachable_daemon_ok [OF assms(1,2)] by (simp_all add: daemon_ok_def)
  have no_return: "exit_of (threads ?g ! j) \<noteq> Some Returned" if "j < length (threads ?g)" for j
  proof
    assume "exit_of (threads ?g ! j) = Some Returned"
    moreover have "j < length (all_threads ?g)" using that by (simp add: all_threads_def)
    ultimately show False
      using ok(1) that assms(3) thread_ok_exit [of "threads ?g ! j" Returned S "shared ?g" j]
      by (auto simp: threads_ok_def)
  qed
  moreover have "pc ?g \<noteq> Run_Done Returned hs" for hs
  proof
    assume "pc ?g = Run_Done Returned hs"
    with run_done_state [OF ok(2)] obtain i where "i < length (threads ?g)" "threads ?g ! i = Finished Returned"
      by metis
    with no_return show False by force
  qed
  ultimately show ?thesis by blast
qed

theorem open_channel_keeps_workers_witness:
  "\<nexists>hs. pc (group_of idle_daemon) = Run_Done Returned hs"
  using open_channel_keeps_workers [OF _ idle_daemon_reachable] by (simp add: idle_daemon_def)

text \<open>
  C17. Twelve bytes end the daemon: in every reachable state in which the acceptor is in its loop, some
  worker is idle and no thread has exited, a connection that sends a header with a key length between
  \<open>-12\<close> and \<open>-1\<close> can make \<open>main\<close> unwind with a slice panic.
\<close>

theorem bad_key_length_ends_daemon:
  fixes s :: UnixStream
  assumes "crossbeam_law (st_channel S)" "reachable (daemon_init S) (daemon_step S) d" "main_at d = In_Run"
    and "slot (group_of d) = None" "workers S < length (threads (group_of d))"
    and "threads (group_of d) ! workers S = Running Accepting"
    and "i < workers S" "threads (group_of d) ! i = Running Receiving"
    and "lib \<in> st_libs S" "from_primitive_law (lib_from_i32 lib)"
    and "us_incoming s = Inr (request_header (st_target S) ty v @ rest)" "- 12 \<le> sint v" "sint v < 0"
  shows "\<exists>d'. (daemon_step S)\<^sup>*\<^sup>* d d' \<and> main_at d' = Main_Unwound Slice_Index"
  using assms by (rule fatal_header_unwinds)

theorem bad_key_length_ends_daemon_witness:
  "\<exists>d'. (daemon_step example_setting)\<^sup>*\<^sup>* idle_daemon d' \<and> main_at d' = Main_Unwound Slice_Index"
  by (rule bad_key_length_ends_daemon [OF _ idle_daemon_reachable, where i = 0 and lib = example_libs
        and s = "peer_sending (request_header linux_release GETPWBYNAME (- 1))" and v = "- 1"
        and ty = GETPWBYNAME and rest = "[]"])
    (simp_all add: idle_daemon_def nth_append example_libs_def from_i32_by_search_law peer_sending_def)

text \<open>
  C10. Once the acceptor has left its loop the daemon drains and ends: if the libraries let the
  connections being served finish, then the workers, \<open>run\<close> and \<open>main\<close> together take at most
  \<open>17 + 7 worker_count\<close> more steps, in any order, and when none is possible \<open>main\<close> has returned or
  unwound.
\<close>

theorem daemon_drains:
  assumes "crossbeam_law (st_channel S)" "reachable (daemon_init S) (daemon_step S) d" "draining S d"
    and "(drain_step S ^^ k) d d'"
  shows "k \<le> 17 + 7 * workers S \<and>
    ((\<nexists>d''. drain_step S d' d'') \<longrightarrow> main_at d' = Main_Returned \<or> (\<exists>p. main_at d' = Main_Unwound p))"
proof -
  have ok: "daemon_ok S d" by (rule reachable_daemon_ok [OF assms(1,2)])
  then have "k \<le> daemon_fuel S d" using nsncd.internal_run [OF assms(4) _ assms(3)] by simp
  moreover have "\<not> process_alive (main_at d')" if "\<nexists>d''. drain_step S d' d''"
    using nsncd.stuck_is_goal [OF assms(4) _ assms(3) that] ok by simp
  then have "(\<nexists>d''. drain_step S d' d'') \<longrightarrow> main_at d' = Main_Returned \<or> (\<exists>p. main_at d' = Main_Unwound p)"
    by (cases "main_at d'") auto
  ultimately show ?thesis using daemon_fuel_le [OF ok] by simp
qed

theorem daemon_drains_witness:
  "\<exists>d d'. main_at d = In_Run \<and> drain_step example_setting d d'"
proof -
  obtain d where d: "(daemon_step example_setting)\<^sup>*\<^sup>* idle_daemon d" "draining example_setting d" "main_at d = In_Run"
    using idle_daemon_drains by blast
  then have "reachable (daemon_init example_setting) (daemon_step example_setting) d"
    using idle_daemon_reachable by (blast intro: reachable_steps)
  from daemon_drains [OF _ this d(2), of 0 d] d(3) show ?thesis by auto
qed

end
