(* ===== verification/Service_Spec.thy ===== *)
theory Service_Spec
  imports Daemon
begin

section \<open>The service as its users see it\<close>

text \<open>
  An abstract specification of the daemon, without threads, channel, mutex or condition variable: a
  service that takes connections while it is open, answers the waiting ones in any order, may refuse
  one connection when it closes, and stops when none is waiting.  It fails after a connection has made
  \<open>handle_stream\<close> panic, or, before the first connection, if it gets no thread.  The theory shows that the daemon refines it: forgetting the threads maps every
  step of the daemon to a step of the service or to none.
\<close>

subsection \<open>The specification\<close>

datatype phase = Open | Closing | Stopped | Failed panic

record service =
  sv_arrived :: "UnixStream list"
  sv_waiting :: "UnixStream multiset"
  sv_replied :: "(UnixStream \<times> event list) list"
  sv_refused :: "UnixStream list"
  sv_phase :: phase

abbreviation running :: "service \<Rightarrow> bool" where
  "running a \<equiv> sv_phase a \<in> {Open, Closing}"

abbreviation serves :: "setting \<Rightarrow> UnixStream \<Rightarrow> event list \<times> (error, unit) outcome \<Rightarrow> bool" where
  "serves S c r \<equiv> \<exists>lib \<in> st_libs S. handle_stream (st_target S) lib (st_config S) c = r"

inductive service_step :: "setting \<Rightarrow> service \<Rightarrow> service \<Rightarrow> bool" for S where
  arrive: "sv_phase a = Open \<Longrightarrow>
     service_step S a (a\<lparr>sv_arrived := sv_arrived a @ [c], sv_waiting := add_mset c (sv_waiting a)\<rparr>)"
| answer: "running a \<Longrightarrow> sv_waiting a = add_mset c m \<Longrightarrow> serves S c (ev, Ok ()) \<Longrightarrow>
     service_step S a (a\<lparr>sv_waiting := m, sv_replied := sv_replied a @ [(c, ev)]\<rparr>)"
| crash: "running a \<Longrightarrow> sv_waiting a = add_mset c m \<Longrightarrow> serves S c (ev, Panic p) \<Longrightarrow>
     service_step S a (a\<lparr>sv_waiting := m, sv_replied := sv_replied a @ [(c, ev)]\<rparr>)"
| refuse: "sv_phase a = Open \<Longrightarrow> sv_waiting a = add_mset c m \<Longrightarrow>
     service_step S a (a\<lparr>sv_waiting := m, sv_refused := sv_refused a @ [c], sv_phase := Closing\<rparr>)"
| close: "sv_phase a = Open \<Longrightarrow> service_step S a (a\<lparr>sv_phase := Closing\<rparr>)"
| stop: "sv_phase a = Closing \<Longrightarrow> sv_waiting a = {#} \<Longrightarrow> service_step S a (a\<lparr>sv_phase := Stopped\<rparr>)"
| no_thread: "sv_phase a = Open \<Longrightarrow> sv_arrived a = [] \<Longrightarrow> service_step S a (a\<lparr>sv_phase := Failed Thread_Spawn\<rparr>)"
| fail: "running a \<Longrightarrow> (c, ev) \<in> set (sv_replied a) \<Longrightarrow> serves S c (ev, Panic p) \<Longrightarrow>
     service_step S a (a\<lparr>sv_phase := Failed p\<rparr>)"

definition service_init :: "service \<Rightarrow> bool" where
  "service_init a \<longleftrightarrow>
     a = \<lparr>sv_arrived = [], sv_waiting = {#}, sv_replied = [], sv_refused = [], sv_phase = Open\<rparr>"

inductive_cases service_stepE: "service_step S a a'"

subsection \<open>Forgetting the threads\<close>

text \<open>The service is open as long as the acceptor is in its loop.\<close>

fun in_loop :: "body thread \<Rightarrow> bool" where
  "in_loop (Running b) \<longleftrightarrow> b \<noteq> Leaving"
| "in_loop _ \<longleftrightarrow> False"

definition view :: "setting \<Rightarrow> body thread list \<Rightarrow> world \<Rightarrow> service" where
  "view S ths w = \<lparr>sv_arrived = accepted w, sv_waiting = flying ths, sv_replied = served w,
     sv_refused = abandoned w, sv_phase = (if in_loop (ths ! workers S) then Open else Closing)\<rparr>"

fun final_phase :: "main_pc \<Rightarrow> phase \<Rightarrow> phase" where
  "final_phase Main_Returned ph = Stopped"
| "final_phase (Main_Unwound p) ph = Failed p"
| "final_phase _ ph = ph"

definition service_of :: "setting \<Rightarrow> daemon \<Rightarrow> service" where
  "service_of S d = (let a = view S (all_threads (group_of d)) (shared (group_of d))
     in a\<lparr>sv_phase := final_phase (main_at d) (sv_phase a)\<rparr>)"

lemma running_view [simp]: "running (view S ths w)"
  by (simp add: view_def)

lemma view_eqI:
  "accepted w' = accepted w \<Longrightarrow> flying ths' = flying ths \<Longrightarrow> served w' = served w \<Longrightarrow> abandoned w' = abandoned w \<Longrightarrow>
   in_loop (ths' ! workers S) = in_loop (ths ! workers S) \<Longrightarrow> view S ths' w' = view S ths w"
  by (simp add: view_def)

lemma view_fields [simp]:
  "sv_arrived (view S ths w) = accepted w" "sv_waiting (view S ths w) = flying ths"
  "sv_replied (view S ths w) = served w" "sv_refused (view S ths w) = abandoned w"
  "sv_phase (view S ths w) = (if in_loop (ths ! workers S) then Open else Closing)"
  by (simp_all add: view_def)

text \<open>A step of a worker and a step of the acceptor.\<close>

lemma worker_body_view:
  assumes "daemon_body S q b w r w'" "worker_body b" "i < length ths" "i \<noteq> workers S" "ths ! i = Running b"
  shows "view S (ths[i := continue_with r]) w' = view S ths w \<or>
    service_step S (view S ths w) (view S (ths[i := continue_with r]) w')"
proof -
  let ?ths = "ths[i := continue_with r]"
  have loop: "in_loop (?ths ! workers S) = in_loop (ths ! workers S)" using assms(4) by simp
  note fly = flying_update [OF assms(3), of "continue_with r", unfolded assms(5)]
  from assms(1,2) show ?thesis
  proof cases
    case recv_closed
    then show ?thesis using fly loop by (intro disjI1 view_eqI) simp_all
  next
    case (serve lib s ev)
    then have eq: "view S ?ths w' = (view S ths w)\<lparr>sv_waiting := flying ?ths,
        sv_replied := sv_replied (view S ths w) @ [(s, ev)]\<rparr>"
      using loop by (simp add: view_def)
    show ?thesis unfolding eq using fly serve by (intro disjI2 service_step.answer) auto
  next
    case (serve_panic lib s ev p)
    then have eq: "view S ?ths w' = (view S ths w)\<lparr>sv_waiting := flying ?ths,
        sv_replied := sv_replied (view S ths w) @ [(s, ev)]\<rparr>"
      using loop by (simp add: view_def)
    show ?thesis unfolding eq using fly serve_panic by (intro disjI2 service_step.crash) auto
  qed auto
qed

lemma acceptor_body_view:
  assumes "daemon_body S q b w r w'" "\<not> worker_body b" "workers S < length ths" "ths ! workers S = Running b"
  shows "view S (ths[workers S := continue_with r]) w' = view S ths w \<or>
    service_step S (view S ths w) (view S (ths[workers S := continue_with r]) w')"
proof -
  let ?ths = "ths[workers S := continue_with r]"
  note fly = flying_update [OF assms(3), of "continue_with r", unfolded assms(4)]
  have refuse: ?thesis
    if "r = Inl Leaving" "w' = w\<lparr>abandoned := abandoned w @ [s]\<rparr>" "in_flight (Running b) = [s]" for s
  proof -
    have "in_loop (Running b)" using that(3) by (cases b) auto
    then have "view S ?ths w' = (view S ths w)\<lparr>sv_waiting := flying ?ths, sv_refused := sv_refused (view S ths w) @ [s],
        sv_phase := Closing\<rparr>" "sv_phase (view S ths w) = Open"
      using that assms(3,4) by (simp_all add: view_def)
    then show ?thesis using fly that service_step.refuse [of "view S ths w" s "flying ?ths" S] by simp
  qed
  have close: ?thesis if "r = Inl Leaving" "w' = w" "in_flight (Running b) = []" "b \<noteq> Leaving"
  proof -
    have "view S ?ths w' = (view S ths w)\<lparr>sv_phase := Closing\<rparr>" "sv_phase (view S ths w) = Open"
      using that assms(3,4) fly by (simp_all add: view_def)
    then show ?thesis using service_step.close [of "view S ths w" S] by simp
  qed
  from assms(1,2) show ?thesis
  proof cases
    case (accept s)
    then have "view S ?ths w' = (view S ths w)\<lparr>sv_arrived := sv_arrived (view S ths w) @ [s],
        sv_waiting := add_mset s (sv_waiting (view S ths w))\<rparr>" "sv_phase (view S ths w) = Open"
      using assms(3,4) fly by (simp_all add: view_def)
    then show ?thesis using service_step.arrive [of "view S ths w" S s] by simp
  qed (use assms(2-4) fly refuse close in \<open>auto intro!: view_eqI\<close>)
qed

text \<open>The steps that forget nothing: handing a connection over, and leaving a thread.\<close>

lemma pair_view:
  assumes "daemon_pair S j b c w b' c' w'" "i < length ths" "j < length ths" "i \<noteq> j"
    and "ths ! i = Running b" "ths ! j = Running c"
  shows "view S (ths[i := Running b', j := Running c']) w' = view S ths w"
proof -
  obtain s where s: "b = Sending s" "c = Receiving" "b' = Accepting" "c' = Serving s" "w' = w"
    using assms(1) by (auto elim: daemon_pairE)
  have "flying (ths[i := Running b', j := Running c']) = flying ths"
    using flying_update [of i ths "Running b'"] flying_update [of j "ths[i := Running b']" "Running c'"]
      assms(2-6) s by simp
  then show ?thesis using s assms(2-6) by (intro view_eqI) (auto simp: nth_list_update)
qed

lemma exit_view:
  assumes "i < length ths" "exit_of (ths ! i) = Some x" "exit_of th = Some x"
    and "w' = w \<or> w' = daemon_captures S i w"
  shows "view S (ths[i := th]) w' = view S ths w"
proof (rule view_eqI)
  have "\<not> in_loop (ths ! i)" "\<not> in_loop th" using assms(2,3) by (cases "ths ! i"; cases th; simp)+
  then show "in_loop (ths[i := th] ! workers S) = in_loop (ths ! workers S)"
    using assms(1) by (auto simp: nth_list_update)
  show "flying (ths[i := th]) = flying ths"
    using flying_update [OF assms(1), of th] in_flight_exit [OF assms(2)] in_flight_exit [OF assms(3)] by simp
qed (use assms(4) in \<open>auto simp: daemon_captures_def\<close>)

lemma group_step_view:
  assumes "threads_ok S (all_threads g) (shared g)" "group_step (daemon_bodies S) g g'"
  shows "view S (all_threads g') (shared g') = view S (all_threads g) (shared g) \<or>
    service_step S (view S (all_threads g) (shared g)) (view S (all_threads g') (shared g'))"
proof -
  have len: "i < length (threads g) \<Longrightarrow> i < length (all_threads g)" for i
    by (simp add: all_threads_def)
  consider "closure_step (daemon_bodies S) g g'" | "exit_step (daemon_bodies S) g g'"
    | "run_step g g' \<or> spurious_wakeup g g'"
    using assms(2) by (auto simp: group_step_def)
  then show ?thesis
  proof cases
    case 1
    then show ?thesis
    proof (cases rule: closure_step_change)
      case (body i b q r)
      have step: "daemon_body S q b (shared g) r (shared g')" using body(3) by (simp add: daemon_bodies_def)
      have "body_ok S (shared g) i b" "i \<le> workers S"
        using assms(1) body(2) len [OF body(1)] by (auto simp: threads_ok_def)
      then have role: "worker_body b \<and> i \<noteq> workers S \<or> \<not> worker_body b \<and> i = workers S"
        by (auto simp: body_ok_def split: if_splits)
      then show ?thesis
        unfolding body(4) using worker_body_view [OF step _ len [OF body(1)] _ body(2)]
          acceptor_body_view [OF step, of "all_threads g"] len [OF body(1)] body(2) by blast
    next
      case (pair i j b c b' c')
      then show ?thesis
        unfolding pair(7) using len by (intro disjI1 pair_view) (simp_all add: daemon_bodies_def)
    qed
  next
    case 2
    then show ?thesis
    proof (cases rule: exit_step_change)
      case (1 i x th w)
      then show ?thesis
        unfolding 1(4,5) using exit_view [OF len [OF 1(1)] 1(2,3)] by (simp add: daemon_bodies_def)
    qed
  next
    case 3
    then show ?thesis using run_step_all_threads spurious_all_threads by metis
  qed
qed

subsection \<open>The refinement\<close>

lemma main_step_service:
  assumes "daemon_ok S d" "daemon_ok S d'" "main_step d d'"
  shows "service_of S d' = service_of S d \<or> service_step S (service_of S d) (service_of S d')"
  using assms(3)
proof cases
  case (resume_unwind p hs)
  obtain c ev lib where "(c, ev) \<in> set (served (shared (group_of d)))" "lib \<in> st_libs S"
    "handle_stream (st_target S) lib (st_config S) c = (ev, Panic p)"
    using run_unwound_crashed [OF assms(1) resume_unwind(3)] by (auto simp: crashed_def)
  moreover have "service_of S d' = (service_of S d)\<lparr>sv_phase := Failed p\<rparr>"
    using resume_unwind by (simp add: service_of_def Let_def)
  ultimately show ?thesis
    using resume_unwind(2) by (auto simp: service_of_def Let_def intro!: service_step.fail)
next
  case (run_unwinds p)
  have refused: "p = Thread_Spawn" "accepted (shared (group_of d)) = []"
    "in_loop (all_threads (group_of d) ! workers S)"
    using thread_refused [OF assms(1) run_unwinds(3)] by simp_all
  moreover have "service_of S d' = (service_of S d)\<lparr>sv_phase := Failed p\<rparr>"
    using run_unwinds by (simp add: service_of_def Let_def)
  ultimately show ?thesis
    using run_unwinds(2) by (auto simp: service_of_def Let_def intro!: service_step.no_thread)
next
  case main_returns
  have "\<not> in_loop (all_threads (group_of d) ! workers S)" "flying (all_threads (group_of d)) = {#}"
    using joined_all [OF assms(1) disjI1 [OF main_returns(2)]] by auto
  moreover have "service_of S d' = (service_of S d)\<lparr>sv_phase := Stopped\<rparr>"
    using main_returns by (simp add: service_of_def Let_def)
  ultimately show ?thesis
    using main_returns(2) by (auto simp: service_of_def Let_def intro!: service_step.stop)
qed (simp_all add: service_of_def)

interpretation refined: simulation "\<lambda>d. crossbeam_law (st_channel S) \<and> daemon_init S d" "daemon_step S"
    "\<lambda>d. crossbeam_law (st_channel S) \<and> daemon_ok S d" "service_of S" service_init "service_step S" for S
proof unfold_locales
  fix d d'
  show "crossbeam_law (st_channel S) \<and> daemon_init S d \<Longrightarrow> crossbeam_law (st_channel S) \<and> daemon_ok S d"
    using daemon_init_ok by blast
  show "crossbeam_law (st_channel S) \<and> daemon_ok S d \<Longrightarrow> daemon_step S d d' \<Longrightarrow>
      crossbeam_law (st_channel S) \<and> daemon_ok S d'"
    using daemon_step_ok by blast
  show "crossbeam_law (st_channel S) \<and> daemon_init S d \<Longrightarrow> service_init (service_of S d)"
    by (auto simp: daemon_init_def started_group_def start_run_def service_of_def view_def service_init_def
        all_threads_def flying_def nth_append dest!: main_start_Ok(1))
  assume ok: "crossbeam_law (st_channel S) \<and> daemon_ok S d" and step: "daemon_step S d d'"
  then have ok': "daemon_ok S d'" using daemon_step_ok by blast
  show "service_of S d' = service_of S d \<or> service_step S (service_of S d) (service_of S d')"
    using step unfolding daemon_step_def
  proof (elim disjE conjE exE)
    fix g assume g: "process_alive (main_at d)" "group_step (daemon_bodies S) (group_of d) g" "d' = d\<lparr>group_of := g\<rparr>"
    have "service_of S e = view S (all_threads (group_of e)) (shared (group_of e))" if "process_alive (main_at e)" for e
      using that by (cases "main_at e") (simp_all add: service_of_def Let_def)
    with g group_step_view [of S "group_of d" g] ok show ?thesis by (simp add: daemon_ok_def)
  qed (use ok ok' main_step_service in blast)
qed

subsection \<open>What the specification promises\<close>

definition service_ok :: "service \<Rightarrow> bool" where
  "service_ok a \<longleftrightarrow>
     mset (sv_arrived a) = mset (map fst (sv_replied a)) + mset (sv_refused a) + sv_waiting a \<and>
     length (sv_refused a) \<le> 1 \<and> (sv_phase a = Open \<longrightarrow> sv_refused a = []) \<and>
     (sv_phase a = Stopped \<longrightarrow> sv_waiting a = {#})"

interpretation spec: inductive_invariant service_init "service_step S" service_ok for S
proof unfold_locales
  show "service_init a \<Longrightarrow> service_ok a" for a
    by (auto simp: service_init_def service_ok_def)
  show "service_ok a \<Longrightarrow> service_step S a a' \<Longrightarrow> service_ok a'" for a a'
    by (elim service_stepE) (auto simp: service_ok_def)
qed

lemma lawful_reachable:
  "crossbeam_law (st_channel S) \<Longrightarrow> reachable (daemon_init S) (daemon_step S) d \<Longrightarrow>
   reachable (\<lambda>d. crossbeam_law (st_channel S) \<and> daemon_init S d) (daemon_step S) d"
  by simp

section \<open>The daemon refines the service\<close>

text \<open>
  C3. The daemon implements the service.  Every step it takes from a reachable state, seen without the
  threads, is a step of the service or changes nothing; so what the daemon does in any interleaving,
  the service can do, and its state is one the service reaches: every connection that arrived was
  answered, waits, or is the one that was refused when the service closed, and the service stops only
  when none waits.
\<close>

theorem daemon_refines_service:
  assumes "crossbeam_law (st_channel S)" "reachable (daemon_init S) (daemon_step S) d"
  shows "reachable service_init (service_step S) (service_of S d) \<and> service_ok (service_of S d) \<and>
    (\<forall>d'. daemon_step S d d' \<longrightarrow>
      service_of S d' = service_of S d \<or> service_step S (service_of S d) (service_of S d'))"
proof (intro conjI allI impI)
  note lawful = lawful_reachable [OF assms]
  show "reachable service_init (service_step S) (service_of S d)" by (rule refined.reachable_abs [OF lawful])
  show "service_ok (service_of S d)" by (rule refined.invariant_transfer [OF spec.reachable_inv lawful])
  show "service_of S d' = service_of S d \<or> service_step S (service_of S d) (service_of S d')"
    if "daemon_step S d d'" for d'
    using that by (rule refined.step_abs [OF refined.reachable_inv [OF lawful]])
qed

theorem daemon_refines_service_witness:
  "\<exists>d. main_at d = Main_Returned \<and> sv_phase (service_of example_setting d) = Stopped \<and>
     reachable service_init (service_step example_setting) (service_of example_setting d) \<and>
     sv_waiting (service_of example_setting d) = {#}"
proof -
  obtain d where d: "reachable (daemon_init example_setting) (daemon_step example_setting) d"
    "main_at d = Main_Returned"
    using idle_daemon_returns by blast
  have "sv_phase (service_of example_setting d) = Stopped" using d(2) by (simp add: service_of_def Let_def)
  moreover note daemon_refines_service [OF _ d(1)]
  ultimately show ?thesis using d(2) by (intro exI [of _ d]) (simp add: service_ok_def)
qed

end
