(* ===== verification/Unit_Tests.thy ===== *)
theory Unit_Tests
  imports Startup
begin

section \<open>The unit tests of the repository\<close>

text \<open>
  The unit tests of \<open>src/config.rs\<close>, \<open>src/protocol.rs\<close>, \<open>src/handlers.rs\<close> and \<open>src/ffi.rs\<close>, run on the
  model.  A test is a truth value; a panic of \<open>unwrap\<close> or \<open>expect\<close> makes it false.  What a test takes
  from its surroundings is a parameter: the process environment that \<open>temp_env\<close> prepares, the
  operating system and the libraries.  That the tests pass validates the model; it is no property of
  the program beyond those of the other theories.  The tests of \<open>src/work_group.rs\<close> start threads and
  are not translated.
\<close>

subsection \<open>Assertions\<close>

fun assert_ok :: "('e, 'a) outcome \<Rightarrow> ('a \<Rightarrow> bool) \<Rightarrow> bool" where
  "assert_ok (Ok a) P \<longleftrightarrow> P a"
| "assert_ok _ P \<longleftrightarrow> False"

fun is_err :: "('e, 'a) outcome \<Rightarrow> bool" where
  "is_err (Err e) \<longleftrightarrow> True"
| "is_err _ \<longleftrightarrow> False"

text \<open>The environment in which \<open>temp_env\<close> runs a closure, with some variables set or unset.\<close>

type_synonym temp_env = "(string \<times> string option) list \<Rightarrow> environment"

subsection \<open>Tests of the configuration\<close>

definition test_defaults :: bool where
  "test_defaults \<longleftrightarrow>
     (let config = Config_default in
      worker_count config = 8 \<and> handoff_timeout config = 3 \<and>
      assert_ok (should_ignore config GETPWBYNAME) Not \<and>
      assert_ok (should_ignore config GETPWBYUID) Not)"

definition test_worker_count :: "temp_env \<Rightarrow> bool" where
  "test_worker_count with_vars \<longleftrightarrow>
     (let run = (\<lambda>v. from_env (with_vars [(''NSNCD_WORKER_COUNT'', v)])) in
      assert_ok (run None) (\<lambda>config. worker_count config = worker_count Config_default) \<and>
      assert_ok (run (Some ''13'')) (\<lambda>config. worker_count config = 13) \<and>
      is_err (run (Some ''0'')) \<and>
      is_err (run (Some ''-1'')) \<and>
      is_err (run (Some ''ten'')) \<and>
      is_err (run (Some ''1000000000000000000000000'')) \<and>
      is_err (run (Some '''')))"

definition test_handoff_timeout :: "temp_env \<Rightarrow> bool" where
  "test_handoff_timeout with_vars \<longleftrightarrow>
     (let run = (\<lambda>v. from_env (with_vars [(''NSNCD_HANDOFF_TIMEOUT'', v)])) in
      assert_ok (run None) (\<lambda>config. handoff_timeout config = handoff_timeout Config_default) \<and>
      assert_ok (run (Some ''13'')) (\<lambda>config. handoff_timeout config = 13) \<and>
      is_err (run (Some ''13s'')) \<and>
      is_err (run (Some ''0'')) \<and>
      is_err (run (Some ''-1'')) \<and>
      is_err (run (Some ''ten'')) \<and>
      is_err (run (Some ''1000000000000000000000000'')) \<and>
      is_err (run (Some '''')))"

text \<open>The request types that a configuration is asserted to ignore, and not to ignore.\<close>

definition ignores_just :: "RequestType list \<Rightarrow> RequestType list \<Rightarrow> (error, Config) outcome \<Rightarrow> bool" where
  "ignores_just yes no r \<longleftrightarrow> assert_ok r (\<lambda>config.
     (\<forall>ty \<in> set yes. assert_ok (should_ignore config ty) id) \<and>
     (\<forall>ty \<in> set no. assert_ok (should_ignore config ty) Not))"

definition test_ignore_vars :: "temp_env \<Rightarrow> bool" where
  "test_ignore_vars with_vars \<longleftrightarrow>
     (let run = (\<lambda>vs. from_env (with_vars vs)); initgroups = (\<lambda>v. run [(''NSNCD_IGNORE_INITGROUPS'', v)]) in
      ignores_just [] [GETPWBYNAME, INITGROUPS] (initgroups None) \<and>
      ignores_just [INITGROUPS] [GETPWBYNAME] (initgroups (Some ''true'')) \<and>
      ignores_just [] [GETPWBYNAME, INITGROUPS] (initgroups (Some ''false'')) \<and>
      is_err (initgroups (Some ''yes'')) \<and>
      is_err (initgroups (Some ''y'')) \<and>
      is_err (initgroups (Some ''no'')) \<and>
      is_err (initgroups (Some ''n'')) \<and>
      is_err (initgroups (Some ''1'')) \<and>
      is_err (initgroups (Some ''0'')) \<and>
      is_err (initgroups (Some '''')) \<and>
      is_err (run [(''NSNCD_IGNORE_initgroups'', Some ''true'')]) \<and>
      is_err (run [(''NSNCD_IGNORE_ZZZNOTAGROUP'', Some ''true'')]) \<and>
      ignores_just [INITGROUPS] [GETPWBYNAME]
        (run [(''NSNCD_IGNORE_PASSWD'', Some ''false''), (''NSNCD_IGNORE_INITGROUPS'', Some ''true'')]) \<and>
      ignores_just [GETPWBYNAME] [INITGROUPS]
        (run [(''NSNCD_IGNORE_PASSWD'', Some ''true''), (''NSNCD_IGNORE_INITGROUPS'', Some ''false'')]) \<and>
      ignores_just [GETPWBYNAME, GETPWBYUID, INITGROUPS] [GETGRBYGID]
        (run [(''NSNCD_IGNORE_PASSWD'', Some ''true''), (''NSNCD_IGNORE_INITGROUPS'', Some ''true'')]) \<and>
      is_err (run [(''NSNCD_IGNORE_PASSWD'', Some ''1''), (''NSNCD_IGNORE_INITGROUPS'', Some ''true'')]) \<and>
      is_err (run [(''NSNCD_IGNORE_PASSWD'', Some ''true''), (''NSNCD_IGNORE_ZZZNOTAGROUP'', Some ''true'')]))"

subsection \<open>Tests of the response headers\<close>

definition test_pw_response_header_as_slice :: "target \<Rightarrow> bool" where
  "test_pw_response_header_as_slice t \<longleftrightarrow>
     PwResponseHeader_as_slice t
       \<lparr>pw_version = VERSION, pw_found = 1, pw_name_len = 5, pw_passwd_len = 0, pw_uid = 123, pw_gid = 456,
        pw_gecos_len = 666, pw_dir_len = 888, pw_shell_len = 4\<rparr> =
     to_ne_bytes t VERSION @ to_ne_bytes t 1 @ to_ne_bytes t 5 @ to_ne_bytes t 0 @ to_ne_bytes t 123 @
     to_ne_bytes t 456 @ to_ne_bytes t 666 @ to_ne_bytes t 888 @ to_ne_bytes t 4"

definition gr_response_header_as_slice :: "target \<Rightarrow> bool" where
  "gr_response_header_as_slice t \<longleftrightarrow>
     GrResponseHeader_as_slice t
       \<lparr>gr_version = VERSION, gr_found = 1, gr_name_len = 5, gr_passwd_len = 0, gr_gid = 420, gr_mem_cnt = 1\<rparr> =
     to_ne_bytes t VERSION @ to_ne_bytes t 1 @ to_ne_bytes t 5 @ to_ne_bytes t 0 @ to_ne_bytes t 420 @
     to_ne_bytes t 1"

definition initgroups_response_header_as_slice :: "target \<Rightarrow> bool" where
  "initgroups_response_header_as_slice t \<longleftrightarrow>
     InitgroupsResponseHeader_as_slice t \<lparr>ig_version = VERSION, ig_found = 1, ig_ngrps = 10\<rparr> =
     to_ne_bytes t VERSION @ to_ne_bytes t 1 @ to_ne_bytes t 10"

subsection \<open>Tests of the handlers\<close>

abbreviation handle_default :: "target \<Rightarrow> libs \<Rightarrow> RequestType \<Rightarrow> byte list \<Rightarrow> (error, byte list) outcome" where
  "handle_default t lib ty key \<equiv> handle_request t lib Config_default \<lparr>req_ty = ty, req_key = key\<rparr>"

definition test_handle_request_empty_key :: "target \<Rightarrow> libs \<Rightarrow> bool" where
  "test_handle_request_empty_key t lib \<longleftrightarrow> is_err (handle_default t lib GETPWBYNAME [])"

definition test_handle_request_nul_data :: "target \<Rightarrow> libs \<Rightarrow> bool" where
  "test_handle_request_nul_data t lib \<longleftrightarrow> is_err (handle_default t lib GETPWBYNAME [0x7F, 0x0, 0x0, 0x01])"

definition test_handle_request_current_user :: "target \<Rightarrow> libs \<Rightarrow> u32 \<Rightarrow> bool" where
  "test_handle_request_current_user t lib geteuid \<longleftrightarrow>
     assert_ok (from_sum Errno (lib_user_from_uid lib geteuid)) (\<lambda>user.
     assert_ok (unwrap user :: (error, User) outcome) (\<lambda>current_user.
     assert_ok (cstring_new (u_name current_user)) (\<lambda>key.
     assert_ok (serialize_user t (Some current_user)) (\<lambda>expected.
     assert_ok (handle_default t lib GETPWBYNAME (with_nul key)) (\<lambda>out. expected = out)))))"

definition localhost :: "byte list" where
  "localhost = bytes_of_string ''localhost''"

definition v6_localhost :: "byte list" where
  "v6_localhost = replicate 15 0 @ [1]"

definition test_handle_request_getai :: "target \<Rightarrow> libs \<Rightarrow> bool" where
  "test_handle_request_getai t lib \<longleftrightarrow>
     (let gen_ai_resp = (\<lambda>addrs. \<lparr>ai_addrs = addrs, ai_canon_name = localhost\<rparr>) in
      assert_ok (cstring_new localhost) (\<lambda>key.
      assert_ok (serialize_address_info t (gen_ai_resp [V6 v6_localhost, V4 [127, 0, 0, 1]])) (\<lambda>expected_1.
      assert_ok (serialize_address_info t (gen_ai_resp [V4 [127, 0, 0, 1], V6 v6_localhost])) (\<lambda>expected_2.
      assert_ok (serialize_address_info t (gen_ai_resp [V4 [127, 0, 0, 1]])) (\<lambda>expected_3.
      assert_ok (handle_default t lib GETAI (with_nul key)) (\<lambda>out.
        expected_1 = out \<or> expected_2 = out \<or> expected_3 = out))))))"

definition test_handle_gethostbyaddr :: "target \<Rightarrow> libs \<Rightarrow> bool" where
  "test_handle_gethostbyaddr t lib \<longleftrightarrow>
     assert_ok (serialize_hostent t \<lparr>he_name = localhost, he_aliases = [], he_addr_type = tgt_AF_INET t,
       he_addr_list = [V4 [127, 0, 0, 1]], he_herrno = 0\<rparr>) (\<lambda>expected.
     assert_ok (handle_default t lib GETHOSTBYADDR [127, 0, 0, 1]) (\<lambda>out. expected = out))"

definition test_handle_gethostbyaddr_invalid_len :: "target \<Rightarrow> libs \<Rightarrow> bool" where
  "test_handle_gethostbyaddr_invalid_len t lib \<longleftrightarrow> is_err (handle_default t lib GETHOSTBYADDR [127, 0, 0])"

definition test_handle_gethostbyaddrv6 :: "target \<Rightarrow> libs \<Rightarrow> bool" where
  "test_handle_gethostbyaddrv6 t lib \<longleftrightarrow>
     assert_ok (serialize_hostent t \<lparr>he_name = localhost, he_aliases = [], he_addr_type = tgt_AF_INET6 t,
       he_addr_list = [V6 v6_localhost], he_herrno = 0\<rparr>) (\<lambda>expected.
     assert_ok (handle_default t lib GETHOSTBYADDRv6 v6_localhost) (\<lambda>out. expected = out))"

definition test_handle_gethostbyaddrv6_invalid_len :: "target \<Rightarrow> libs \<Rightarrow> bool" where
  "test_handle_gethostbyaddrv6_invalid_len t lib \<longleftrightarrow> is_err (handle_default t lib GETHOSTBYADDRv6 (replicate 15 0))"

text \<open>The captured bytes are those of a little-endian machine.\<close>

definition test_hostent_serialization :: "target \<Rightarrow> bool" where
  "test_hostent_serialization t \<longleftrightarrow>
     assert_ok (serialize_hostent t
       \<lparr>he_name = bytes_of_string ''trantor.alternativebit.fr'', he_aliases = [bytes_of_string ''trantor''],
        he_addr_type = tgt_AF_INET6 t, he_addr_list = [V6 v6_localhost], he_herrno = 0\<rparr>) (\<lambda>hostent. hostent =
     [0x02, 0x00, 0x00, 0x00, 0x01, 0x00, 0x00, 0x00, 0x1a, 0x00, 0x00, 0x00, 0x01, 0x00,
      0x00, 0x00, 0x0a, 0x00, 0x00, 0x00, 0x10, 0x00, 0x00, 0x00, 0x01, 0x00, 0x00, 0x00,
      0x00, 0x00, 0x00, 0x00, 0x74, 0x72, 0x61, 0x6e, 0x74, 0x6f, 0x72, 0x2e, 0x61, 0x6c,
      0x74, 0x65, 0x72, 0x6e, 0x61, 0x74, 0x69, 0x76, 0x65, 0x62, 0x69, 0x74, 0x2e, 0x66,
      0x72, 0x00, 0x08, 0x00, 0x00, 0x00, 0x00, 0x00, 0x00, 0x00, 0x00, 0x00, 0x00, 0x00,
      0x00, 0x00, 0x00, 0x00, 0x00, 0x00, 0x00, 0x01, 0x74, 0x72, 0x61, 0x6e, 0x74, 0x6f,
      0x72, 0x00])"

subsection \<open>Tests of the C library boundary\<close>

definition test_gethostbyname2_r :: "os \<Rightarrow> target \<Rightarrow> libs \<Rightarrow> bool" where
  "test_gethostbyname2_r os t lib \<longleftrightarrow>
     assert_ok (snd (disable_internal_nscd os [])) (\<lambda>_. True) \<and>
     assert_ok (gethostbyname2_r t (lib_gethostbyname2_r lib) (bytes_of_string ''localhost.'') (tgt_AF_INET t)) (\<lambda>_. True) \<and>
     assert_ok (gethostbyname2_r t (lib_gethostbyname2_r lib) (bytes_of_string ''localhost.'') (tgt_AF_INET6 t)) (\<lambda>_. True)"

definition test_gethostbyaddr_r :: "os \<Rightarrow> target \<Rightarrow> libs \<Rightarrow> bool" where
  "test_gethostbyaddr_r os t lib \<longleftrightarrow>
     assert_ok (snd (disable_internal_nscd os [])) (\<lambda>_. True) \<and>
     assert_ok (gethostbyaddr_r t (lib_gethostbyaddr_r lib) (LibcIp_V4 [127, 0, 0, 1])) (\<lambda>_. True) \<and>
     assert_ok (gethostbyaddr_r t (lib_gethostbyaddr_r lib) (LibcIp_V6 v6_localhost)) (\<lambda>_. True)"

section \<open>Lemmas\<close>

lemma assert_ok_iff: "assert_ok r P \<longleftrightarrow> (\<exists>a. r = Ok a \<and> P a)"
  by (cases r) simp_all

lemma is_err_iff: "is_err r \<longleftrightarrow> returns r \<and> (\<forall>a. r \<noteq> Ok a)"
  by (cases r) simp_all

subsection \<open>The environment of the tests\<close>

text \<open>
  What \<open>temp_env\<close> documents, for a process that has no variable of the program itself: the closure sees
  the given variables, set or unset, and otherwise the variables of the process.
\<close>

definition test_environment :: "temp_env \<Rightarrow> bool" where
  "test_environment with_vars \<longleftrightarrow> (\<exists>own.
     (\<forall>(k, v) \<in> own. is_unicode k \<and> is_unicode v \<and> take 6 k \<noteq> ''NSNCD_'') \<and>
     (\<forall>vs. distinct (map fst vs) \<longrightarrow> distinct (map fst (with_vars vs)) \<and>
        set (with_vars vs) = {(k, v). (k, Some v) \<in> set vs} \<union> {(k, v) \<in> own. k \<notin> fst ` set vs}))"

definition set_vars :: temp_env where
  "set_vars vs = [(k, v). (k, Some v) \<leftarrow> vs]"

lemma set_set_vars [simp]: "set (set_vars vs) = {(k, v). (k, Some v) \<in> set vs}"
  by (force simp: set_vars_def)

lemma distinct_set_vars: "distinct (map fst vs) \<Longrightarrow> distinct (map fst (set_vars vs))"
  by (induction vs) (force simp: set_vars_def split: option.splits)+

lemma set_vars_test_environment: "test_environment set_vars"
  unfolding test_environment_def by (rule exI [of _ "{}"]) (simp add: distinct_set_vars)

lemma test_environmentE:
  assumes "test_environment with_vars" "distinct (map fst vs)"
  obtains own where "\<forall>(k, v) \<in> own. is_unicode k \<and> is_unicode v \<and> take 6 k \<noteq> ''NSNCD_''"
    "distinct (map fst (with_vars vs))"
    "set (with_vars vs) = set (set_vars vs) \<union> {(k, v) \<in> own. k \<notin> fst ` set vs}"
proof -
  obtain own where own: "\<forall>(k, v) \<in> own. is_unicode k \<and> is_unicode v \<and> take 6 k \<noteq> ''NSNCD_''"
    and "\<forall>vs. distinct (map fst vs) \<longrightarrow> distinct (map fst (with_vars vs)) \<and>
      set (with_vars vs) = {(k, v). (k, Some v) \<in> set vs} \<union> {(k, v) \<in> own. k \<notin> fst ` set vs}"
    using assms(1) unfolding test_environment_def by blast
  from this(2) [rule_format, OF assms(2)] show ?thesis using own by (intro that [of own]) auto
qed

lemma from_env_test:
  assumes "test_environment with_vars" "distinct (map fst vs)"
  shows "from_env (with_vars vs) = Ok cfg \<longleftrightarrow> from_env (set_vars vs) = Ok cfg"
proof -
  obtain own where vars: "\<forall>(k, v) \<in> own. is_unicode k \<and> is_unicode v \<and> take 6 k \<noteq> ''NSNCD_''"
    and env: "distinct (map fst (with_vars vs))"
      "set (with_vars vs) = set (set_vars vs) \<union> {(k, v) \<in> own. k \<notin> fst ` set vs}"
    by (rule test_environmentE [OF assms])
  have own: "is_unicode k \<and> is_unicode v \<and> take 6 k \<noteq> ''NSNCD_''" if "(k, v) \<in> own" for k v
    using vars that by auto
  have own_ok: "var_ok (k, v)" if "(k, v) \<in> own" for k v
    using own [OF that] by (auto simp: var_ok_code ignore_prefix_def)
  have ours: "map_of (with_vars vs) k = map_of (set_vars vs) k" if "take 6 k = ''NSNCD_''" for k
  proof -
    have "(k, v) \<in> set (with_vars vs) \<longleftrightarrow> (k, v) \<in> set (set_vars vs)" for v
      unfolding env(2) using own that by auto
    then show ?thesis
      using env(1) distinct_set_vars [OF assms(2)] by (metis map_of_eq_Some_iff not_None_eq)
  qed
  show ?thesis
  proof (rule from_env_same)
    show "(\<forall>kv \<in> set (with_vars vs). var_ok kv) \<longleftrightarrow> (\<forall>kv \<in> set (set_vars vs). var_ok kv)"
      unfolding env(2) using own_ok by fast
    have "(ignore_prefix @ db, ''true'') \<notin> own" for db
      using own [of "ignore_prefix @ db"] by (auto simp: ignore_prefix_def)
    then show "ignored_by (with_vars vs) = ignored_by (set_vars vs)"
      unfolding ignored_by_code env(2) by blast
  qed (simp_all add: ours)
qed

lemma from_env_test_returns:
  assumes "test_environment with_vars" "distinct (map fst vs)"
    and "\<forall>(k, v) \<in> set (set_vars vs). is_unicode k \<and> is_unicode v"
  shows "returns (from_env (with_vars vs))"
proof (rule from_env_returns)
  obtain own where "\<forall>(k, v) \<in> own. is_unicode k \<and> is_unicode v \<and> take 6 k \<noteq> ''NSNCD_''"
    "distinct (map fst (with_vars vs))"
    "set (with_vars vs) = set (set_vars vs) \<union> {(k, v) \<in> own. k \<notin> fst ` set vs}"
    by (rule test_environmentE [OF assms(1,2)])
  with assms(3) show "\<forall>(k, v) \<in> set (with_vars vs). is_unicode k \<and> is_unicode v" by auto
qed

lemma assert_ok_test:
  "test_environment with_vars \<Longrightarrow> distinct (map fst vs) \<Longrightarrow>
   assert_ok (from_env (with_vars vs)) P \<longleftrightarrow> assert_ok (from_env (set_vars vs)) P"
  using from_env_test by (auto simp: assert_ok_iff)

lemma is_err_test:
  "test_environment with_vars \<Longrightarrow> distinct (map fst vs) \<Longrightarrow>
   \<forall>(k, v) \<in> set (set_vars vs). is_unicode k \<and> is_unicode v \<Longrightarrow>
   is_err (from_env (with_vars vs)) \<longleftrightarrow> is_err (from_env (set_vars vs))"
  using from_env_test from_env_test_returns from_env_returns by (auto simp: is_err_iff)

lemma parse_usize_examples:
  "parse_usize ''13'' = Some 13" "parse_usize ''0'' = Some 0" "parse_usize ''-1'' = None" "parse_usize ''ten'' = None"
  "parse_usize ''1000000000000000000000000'' = None" "parse_usize '''' = None" "parse_usize ''13s'' = None"
  by (simp_all add: parse_usize_def digit_val_def)

lemma count_tests: "test_worker_count set_vars" "test_handoff_timeout set_vars"
  by (simp_all add: test_worker_count_def test_handoff_timeout_def set_vars_def from_env_def ignore_var_def
      ignore_prefix_def is_unicode_ascii env_positive_usize_def env_var_def parse_usize_examples Config_default_def)

lemma ignore_tests: "test_ignore_vars set_vars"
  by code_simp

lemma config_tests:
  assumes "test_environment with_vars"
  shows "test_worker_count with_vars" "test_handoff_timeout with_vars" "test_ignore_vars with_vars"
  using count_tests ignore_tests
  unfolding test_worker_count_def test_handoff_timeout_def test_ignore_vars_def ignores_just_def Let_def
  by (simp_all add: assert_ok_test [OF assms] is_err_test [OF assms] is_unicode_ascii)

subsection \<open>The libraries of the tests\<close>

text \<open>The user that runs the tests has an entry, which the lookup by name finds as well.\<close>

definition knows_user :: "libs \<Rightarrow> u32 \<Rightarrow> bool" where
  "knows_user lib uid \<longleftrightarrow> (\<exists>u. lib_user_from_uid lib uid = Inr (Some u) \<and>
     lib_user_from_name lib (u_name u) = Inr (Some u) \<and> user_fits u \<and> is_utf8 (u_name u))"

text \<open>A host lookup that ends and leaves the entry \<open>h\<close> in memory.\<close>

definition finds_host :: "target \<Rightarrow> gethost_call \<Rightarrow> Hostent \<Rightarrow> bool" where
  "finds_host t call h \<longleftrightarrow> (\<exists>n st v. n \<le> 13 \<and> settles_at t call n st \<and> ffi_result st = Some v \<and>
     hostent_at t (ffi_mem st) v h)"

abbreviation localhost_entry :: "i32 \<Rightarrow> IpAddr \<Rightarrow> Hostent" where
  "localhost_entry af ip \<equiv> \<lparr>he_name = localhost, he_aliases = [], he_addr_type = af, he_addr_list = [ip], he_herrno = 0\<rparr>"

definition knows_localhost :: "target \<Rightarrow> libs \<Rightarrow> bool" where
  "knows_localhost t lib \<longleftrightarrow>
     finds_host t (lib_gethostbyaddr_r lib [127, 0, 0, 1] 4 (tgt_AF_INET t)) (localhost_entry (tgt_AF_INET t) (V4 [127, 0, 0, 1])) \<and>
     finds_host t (lib_gethostbyaddr_r lib v6_localhost 16 (tgt_AF_INET6 t)) (localhost_entry (tgt_AF_INET6 t) (V6 v6_localhost)) \<and>
     (\<exists>h. finds_host t (lib_gethostbyname2_r lib (bytes_of_string ''localhost.'') (tgt_AF_INET t)) h) \<and>
     (\<exists>h. finds_host t (lib_gethostbyname2_r lib (bytes_of_string ''localhost.'') (tgt_AF_INET6 t)) h) \<and>
     (\<exists>infos a as. lib_getaddrinfo lib localhost \<lparr>hint_flags = tgt_AI_CANONNAME t,
          hint_socktype = tgt_SOCK_STREAM t, hint_address = 0, hint_protocol = 0\<rparr> = Inr infos \<and>
        [a. Inr a \<leftarrow> infos] = a # as \<and> ai_canonname a \<in> {None, Some localhost} \<and>
        map ai_sockaddr_ip (a # as) \<in> {[V6 v6_localhost, V4 [127, 0, 0, 1]], [V4 [127, 0, 0, 1], V6 v6_localhost],
          [V4 [127, 0, 0, 1]]})"

lemma localhost_ok: "cstring_ok localhost" "is_utf8 localhost" "cstring_ok (bytes_of_string ''localhost.'')"
  by code_simp+

lemma finds_host_lookups:
  assumes "finds_host t call h" "families_differ t"
  shows "\<exists>st. gethostbyaddr_loop t call 1024 ffi_init = Some (Ok st) \<and>
      gethostbyname2_loop t call 1024 ffi_init = Some (Ok st) \<and>
      unmarshal_gethostbyxx t (ffi_mem st) (ffi_result st) (ffi_herrno st) = Ok h"
proof -
  obtain n st v where n: "n \<le> 13" "settles_at t call n st" and v: "ffi_result st = Some v"
    "hostent_at t (ffi_mem st) v h"
    using assms(1) by (auto simp: finds_host_def)
  have "from_libc_hostent t (ffi_mem st) v = Ok h"
    using from_libc_hostent_at [OF v(2)] assms(2) unfolding families_differ_def by metis
  with n v(1) gethostbyaddr_loop_settled gethostbyname2_loop_settled show ?thesis
    by (fastforce simp: unmarshal_gethostbyxx_def)
qed

lemma finds_host_results:
  assumes "families_differ t"
  shows "finds_host t (glibc addr 4 (tgt_AF_INET t)) h \<Longrightarrow> gethostbyaddr_r t glibc (LibcIp_V4 addr) = Ok h"
    "finds_host t (glibc addr 16 (tgt_AF_INET6 t)) h \<Longrightarrow> gethostbyaddr_r t glibc (LibcIp_V6 addr) = Ok h"
    "finds_host t (glibc2 name af) h \<Longrightarrow> cstring_ok name \<Longrightarrow> gethostbyname2_r t glibc2 name af = Ok h"
  using finds_host_lookups [OF _ assms] by (fastforce simp: gethostbyaddr_r_def gethostbyname2_r_def)+

lemma refused_key_tests:
  "test_handle_request_empty_key t lib" "test_handle_request_nul_data t lib"
  "test_handle_gethostbyaddr_invalid_len t lib" "test_handle_gethostbyaddrv6_invalid_len t lib"
  by (simp_all add: test_handle_request_empty_key_def test_handle_request_nul_data_def
      test_handle_gethostbyaddr_invalid_len_def test_handle_gethostbyaddrv6_invalid_len_def
      handle_defs should_ignore_members from_bytes_with_nul_def cstring_ok_def)

lemma current_user_test:
  assumes "knows_user lib euid"
  shows "test_handle_request_current_user t lib euid"
proof -
  obtain u where u: "lib_user_from_uid lib euid = Inr (Some u)" "lib_user_from_name lib (u_name u) = Inr (Some u)"
    "user_fits u" "is_utf8 (u_name u)"
    using assms by (auto simp: knows_user_def)
  obtain bs where bs: "serialize_user t (Some u) = Ok bs" using user_reply.roundtrip [of "Some u" t] u(3) by auto
  have "cstring_ok (u_name u)" using u(3) by (simp add: user_fits_def wire_string_def)
  with u bs from_bytes_with_nul_eq_Ok [of "with_nul (u_name u)" "u_name u"] show ?thesis
    by (simp add: test_handle_request_current_user_def cstring_new_def handle_defs should_ignore_members to_str_def)
qed

lemma header_tests:
  "test_pw_response_header_as_slice t" "gr_response_header_as_slice t" "initgroups_response_header_as_slice t"
  by (simp_all add: test_pw_response_header_as_slice_def gr_response_header_as_slice_def
      initgroups_response_header_as_slice_def PwResponseHeader_as_slice_def GrResponseHeader_as_slice_def
      InitgroupsResponseHeader_as_slice_def)

lemma trantor_test: "t \<in> {linux_release, linux_debug} \<Longrightarrow> test_hostent_serialization t"
proof -
  have "test_hostent_serialization linux_release" "test_hostent_serialization linux_debug" by code_simp+
  then show "t \<in> {linux_release, linux_debug} \<Longrightarrow> test_hostent_serialization t" by blast
qed

lemma localhost_entries_serialize:
  assumes "t \<in> {linux_release, linux_debug}"
  shows "\<exists>bs. serialize_hostent t (localhost_entry (tgt_AF_INET t) (V4 [127, 0, 0, 1])) = Ok bs"
    "\<exists>bs. serialize_hostent t (localhost_entry (tgt_AF_INET6 t) (V6 v6_localhost)) = Ok bs"
proof -
  have "length localhost = 9" "length v6_localhost = 16" by code_simp+
  then have "host_fits t (localhost_entry (tgt_AF_INET t) (V4 [127, 0, 0, 1]))"
    "host_fits t (localhost_entry (tgt_AF_INET6 t) (V6 v6_localhost))"
    using assms by (auto simp: host_fits_def ip_of_family_def linux_release_def linux_debug_def)
  then show "\<exists>bs. serialize_hostent t (localhost_entry (tgt_AF_INET t) (V4 [127, 0, 0, 1])) = Ok bs"
    "\<exists>bs. serialize_hostent t (localhost_entry (tgt_AF_INET6 t) (V6 v6_localhost)) = Ok bs"
    using host_reply.roundtrip by blast+
qed

lemma host_tests:
  assumes "t \<in> {linux_release, linux_debug}" "knows_localhost t lib"
  shows "test_handle_gethostbyaddr t lib" "test_handle_gethostbyaddrv6 t lib"
    "test_gethostbyname2_r os t lib" "test_gethostbyaddr_r os t lib"
proof -
  have "families_differ t" using assms(1) by (auto simp: families_differ_def linux_release_def linux_debug_def)
  note results = finds_host_results [OF this]
  have v4: "gethostbyaddr_r t (lib_gethostbyaddr_r lib) (LibcIp_V4 [127, 0, 0, 1]) =
      Ok (localhost_entry (tgt_AF_INET t) (V4 [127, 0, 0, 1]))"
    and v6: "gethostbyaddr_r t (lib_gethostbyaddr_r lib) (LibcIp_V6 v6_localhost) =
      Ok (localhost_entry (tgt_AF_INET6 t) (V6 v6_localhost))"
    using assms(2) by (auto simp: knows_localhost_def intro!: results(1,2))
  have len: "length v6_localhost = 16" by code_simp
  show "test_handle_gethostbyaddr t lib" "test_handle_gethostbyaddrv6 t lib"
    using localhost_entries_serialize [OF assms(1)] v4 v6 len
    by (auto simp: test_handle_gethostbyaddr_def test_handle_gethostbyaddrv6_def handle_defs should_ignore_members)
  show "test_gethostbyaddr_r os t lib"
    using v4 v6 by (simp add: test_gethostbyaddr_r_def disable_internal_nscd_calls)
  show "test_gethostbyname2_r os t lib"
    using assms(2) results(3) [OF _ localhost_ok(3)]
    by (fastforce simp: test_gethostbyname2_r_def knows_localhost_def assert_ok_iff disable_internal_nscd_calls)
qed

lemma getai_test:
  assumes "t \<in> {linux_release, linux_debug}" "knows_localhost t lib"
  shows "test_handle_request_getai t lib"
proof -
  let ?v4 = "V4 [127, 0, 0, 1]" and ?v6 = "V6 v6_localhost"
  let ?resp = "\<lambda>ips. \<lparr>ai_addrs = ips, ai_canon_name = localhost\<rparr>"
  obtain infos a as where infos: "lib_getaddrinfo lib localhost \<lparr>hint_flags = tgt_AI_CANONNAME t,
      hint_socktype = tgt_SOCK_STREAM t, hint_address = 0, hint_protocol = 0\<rparr> = Inr infos"
    "[a. Inr a \<leftarrow> infos] = a # as" "ai_canonname a \<in> {None, Some localhost}"
    "map ai_sockaddr_ip (a # as) \<in> {[?v6, ?v4], [?v4, ?v6], [?v4]}"
    using assms(2) unfolding knows_localhost_def by (elim conjE exE) (rule that)
  have "ai_response_of localhost infos = ?resp (map ai_sockaddr_ip (a # as))"
    using infos(2,3) by (auto simp: ai_response_of_def Let_def map_filter_oks)
  then have "handle_default t lib GETAI (with_nul localhost) = serialize_address_info t (?resp (map ai_sockaddr_ip (a # as)))"
    using infos(1) localhost_ok from_bytes_with_nul_eq_Ok [of "with_nul localhost" localhost]
    by (simp add: handle_defs should_ignore_members to_str_def)
  moreover have "\<exists>bs. serialize_address_info t (?resp ips) = Ok bs" for ips
    using localhost_ok(1) by (simp add: serialize_address_info_def Let_def cstring_new_def)
  then obtain f where "serialize_address_info t (?resp ips) = Ok (f ips)" for ips by metis
  ultimately show ?thesis
    using infos(4) localhost_ok(1) by (auto simp: test_handle_request_getai_def cstring_new_def Let_def)
qed

section \<open>The tests pass\<close>

text \<open>
  The model passes the unit tests of the repository, in a release and in a debug build: those of
  the configuration in every process environment without variables of the program, those of keys and
  headers with any libraries, and those of lookups if the libraries know the current user and
  localhost the way the tests expect.
\<close>

lemma unit_tests_pass:
  assumes "t \<in> {linux_release, linux_debug}" "test_environment with_vars" "knows_user lib euid"
    and "knows_localhost t lib"
  shows "test_defaults \<and> test_worker_count with_vars \<and> test_handoff_timeout with_vars \<and> test_ignore_vars with_vars \<and>
    test_pw_response_header_as_slice t \<and> gr_response_header_as_slice t \<and> initgroups_response_header_as_slice t \<and>
    test_handle_request_empty_key t lib \<and> test_handle_request_nul_data t lib \<and>
    test_handle_request_current_user t lib euid \<and> test_handle_request_getai t lib \<and>
    test_handle_gethostbyaddr t lib \<and> test_handle_gethostbyaddr_invalid_len t lib \<and>
    test_handle_gethostbyaddrv6 t lib \<and> test_handle_gethostbyaddrv6_invalid_len t lib \<and>
    test_hostent_serialization t \<and> test_gethostbyname2_r os t lib \<and> test_gethostbyaddr_r os t lib"
proof -
  have test_defaults by code_simp
  then show ?thesis
    using assms config_tests header_tests refused_key_tests current_user_test getai_test host_tests trantor_test
    by simp
qed

text \<open>Libraries that know root and localhost.\<close>

definition localhost_mem :: cmem where
  "localhost_mem = \<lparr>mem_u8 = zip [1..<11] (with_nul localhost) @ zip [11..<15] [127, 0, 0, 1] @ zip [15..<31] v6_localhost,
     mem_ptr = [(1, 0), (9, 11), (17, 0), (25, 15), (33, 0)]\<rparr>"

definition localhost_hostent :: "i32 \<Rightarrow> libc_hostent" where
  "localhost_hostent af = \<lparr>h_name = 1, h_aliases = 1, h_addrtype = af, h_length = (if af = 2 then 4 else 16),
     h_addr_list = (if af = 2 then 9 else 25)\<rparr>"

definition found_localhost :: "i32 \<Rightarrow> gethost_call" where
  "found_localhost af = (\<lambda>_ _. (0, \<lparr>ffi_mem = localhost_mem, ffi_result = Some (localhost_hostent af), ffi_herrno = 0\<rparr>))"

definition test_libs :: libs where
  "test_libs = example_libs\<lparr>
     lib_getaddrinfo := \<lambda>_ _. Inr [Inr \<lparr>ai_canonname = Some localhost, ai_sockaddr_ip = V4 [127, 0, 0, 1]\<rparr>],
     lib_gethostbyaddr_r := \<lambda>_ _. found_localhost, lib_gethostbyname2_r := \<lambda>_. found_localhost\<rparr>"

lemma finds_localhost:
  "finds_host linux_release (found_localhost 2) (localhost_entry 2 (V4 [127, 0, 0, 1]))"
  "finds_host linux_release (found_localhost 10) (localhost_entry 10 (V6 v6_localhost))"
proof -
  have "cstring_at localhost_mem 1 localhost" "octets_at localhost_mem 11 [127, 0, 0, 1]"
    "octets_at localhost_mem 15 v6_localhost" "length v6_localhost = 16"
    by code_simp+
  then have "hostent_at linux_release localhost_mem (localhost_hostent 2) (localhost_entry 2 (V4 [127, 0, 0, 1]))"
    "hostent_at linux_release localhost_mem (localhost_hostent 10) (localhost_entry 10 (V6 v6_localhost))"
    by (simp_all add: hostent_at_def localhost_hostent_def linux_release_def localhost_mem_def ip_at_def
        ip_of_family_def ip_octets_def)
  then show "finds_host linux_release (found_localhost 2) (localhost_entry 2 (V4 [127, 0, 0, 1]))"
    "finds_host linux_release (found_localhost 10) (localhost_entry 10 (V6 v6_localhost))"
    by (auto simp: finds_host_def settles_at_def found_localhost_def linux_release_def intro!: exI [of _ 0])
qed

text \<open>With these libraries every hypothesis holds.\<close>

lemma unit_tests_pass_example:
  "test_worker_count set_vars \<and> test_ignore_vars set_vars \<and> test_handle_request_current_user linux_release test_libs 0 \<and>
   test_handle_request_getai linux_release test_libs \<and> test_handle_gethostbyaddrv6 linux_release test_libs"
proof -
  have "knows_user test_libs 0"
    by (simp add: knows_user_def test_libs_def example_libs_def example_user_def user_fits_def wire_string_def cstring_ok_def)
  moreover have "tgt_AF_INET linux_release = 2" "tgt_AF_INET6 linux_release = 10" by (simp_all add: linux_release_def)
  then have "knows_localhost linux_release test_libs"
    using finds_localhost by (auto simp: knows_localhost_def test_libs_def)
  ultimately show ?thesis
    using unit_tests_pass [of linux_release set_vars test_libs 0] set_vars_test_environment by simp
qed

end
