(* ===== verification/Spec2Isabelle.thy ===== *)
theory Spec2Isabelle
  imports Service_Spec Unit_Tests
begin

text \<open>
  \<^bold>\<open>nsncd: a verified model of the name service non-caching daemon\<close>

  \<open>nsncd\<close> answers the requests that the C library sends to the \<open>nscd\<close> socket, by looking names up in
  its own process.  \<open>main\<close> reads the configuration from the environment and starts a work group: one
  acceptor thread takes connections from the socket and hands each to one of \<open>worker_count\<close> worker
  threads; a worker reads one request, looks it up and writes one reply.  The first thread that
  exits ends the group.

  \<^bold>\<open>Theories and sources.\<close>

  \<^item> \<open>Prelude\<close>: the outcome monad (value, error, panic, undefined behaviour, divergence), the
    description of the compilation target (byte order, overflow checks, C constants), lemmas on lists.
  \<^item> \<open>Rust_Std\<close>: what the sources use of the Rust standard library: slices and indexing with their
    panics, checked and wrapping integer conversion, native-endian encoding, C strings, UTF-8,
    \<open>str::parse\<close>, \<open>BTreeMap\<close>, \<open>Vec::reserve\<close>.  Interfaces \<open>fixed_codec\<close> and \<open>ordered_map\<close>.
  \<^item> \<open>Protocol\<close> (\<open>src/protocol.rs\<close>): request types, \<open>Request::parse\<close>, the five response headers.  The
    interface \<open>word_layout\<close> gives size and decoding of every header.  \<open>FromPrimitive::from_i32\<close> is a
    parameter with its documented law \<open>from_primitive_law\<close>.
  \<^item> \<open>Config\<close> (\<open>src/config.rs\<close>): \<open>RequestTypeSet\<close> with its interface \<open>request_set\<close>,
    \<open>Config::from_env\<close>, \<open>env_positive_usize\<close>, \<open>should_ignore\<close>, \<open>Debug\<close>.  The specification
    (\<open>documented_databases\<close>, \<open>ignored_by\<close>, \<open>var_ok\<close>) is written from the comment on \<open>from_env\<close> and does
    not refer to the table of the code.
  \<^item> \<open>Ffi\<close> (\<open>src/ffi.rs\<close>): C memory, \<open>from_libc_hostent\<close> with its two pointer loops,
    \<open>unmarshal_gethostbyxx\<close>, and the retry loops of \<open>gethostbyaddr_r\<close> and \<open>gethostbyname2_r\<close> (interface
    \<open>retry_loop\<close>).  The two glibc functions are parameters.
  \<^item> \<open>Serialize\<close> (\<open>src/handlers.rs\<close>): the five serialisers, and the decoders of a client as their
    specification (interfaces \<open>reply_codec\<close> and \<open>strict_reply_codec\<close>).
  \<^item> \<open>Handlers\<close> (\<open>src/handlers.rs\<close>): \<open>handle_request\<close>, one definition per arm.  \<open>atoi\<close>, the user and group
    databases of \<open>nix\<close>, \<open>dns_lookup\<close> and glibc are the fields of the parameter \<open>libs\<close>.
  \<^item> \<open>Connection\<close> (\<open>src/main.rs\<close>): \<open>handle_stream\<close>, with what it does to the connection and to the log.
  \<^item> \<open>Transition\<close>: reachable states; the contracts \<open>inductive_invariant\<close>, \<open>bounded_progress\<close> and
    \<open>simulation\<close>.
  \<^item> \<open>Work_Group\<close> (\<open>src/work_group.rs\<close>): threads, mutex, condition variable and join as a transition
    system over arbitrary closures.  A panic of \<open>run\<close> (a thread that the system refuses, a missing
    handle) is the relation \<open>run_panic\<close>, because it is no step of the group: it ends the caller.
  \<^item> \<open>Closures\<close> (\<open>src/main.rs\<close>): the closures of the acceptor and the workers and the channel between
    them.  \<open>crossbeam_channel::bounded(0)\<close> is a parameter with its documented law \<open>crossbeam_law\<close>.
  \<^item> \<open>Startup\<close> (\<open>src/main.rs\<close>, \<open>src/ffi.rs\<close>): \<open>disable_internal_nscd\<close>, \<open>spawn_workers\<close>,
    \<open>spawn_acceptor\<close> and \<open>main\<close> up to \<open>run\<close>, with the calls it makes to the operating system, the C
    library and the service manager, and the errors they return.
  \<^item> \<open>Daemon\<close> (\<open>src/main.rs\<close>): the process: the work group that start-up builds and the end of \<open>main\<close>,
    by return, by the panic of a thread or by a panic of \<open>run\<close>.
  \<^item> \<open>Service_Spec\<close>: an abstract service without threads, and the proof that the daemon refines it.
  \<^item> \<open>Unit_Tests\<close>: the unit tests of the sources, as truth values over the model; that they pass
    validates the definitions.
  \<^item> This theory: what holds from the socket to the reply.

  \<^bold>\<open>What the theorems show.\<close>  The parser accepts exactly the encodings of requests,
  and panics exactly on key lengths between \<open>-12\<close> and \<open>-1\<close> (or on overflow,
  where it is checked).  The configuration is the documented one, whatever the order of the variables
  and whatever other variables there are; reading it panics exactly on a variable that is not Unicode;
  the array of bits behind it answers as a set and is shown as one.  Serialised replies are read back
  exactly by a client, and values that do not fit the wire give an error.  The handler answers each kind
  of request with what the databases hold, every reply is well formed for its request and starts with
  the protocol version unless it says that a user or a group does not exist, malformed keys are refused,
  and there is no panic in a release build.  Start-up makes its calls in one order and announces
  readiness exactly when the socket is open to clients.  A connection is answered exactly when the first
  4096 bytes that arrive start with a request the handler accepts.  The first exit of a thread decides
  the result of \<open>run\<close>; no wake-up is lost, \<open>run\<close> does not deadlock, panics
  only if a thread is refused, and otherwise returns within a bounded number of steps after the first
  exit.  No connection is lost or served twice; \<open>main\<close> returns only after all threads have
  finished; after the acceptor leaves its loop the daemon drains and ends.  \<open>main\<close> unwinds
  only over a variable that is not Unicode, before the socket is touched, over a refused thread, before
  a connection is accepted, or after a panic of \<open>handle_stream\<close>, and a header of twelve
  bytes is enough for the last.  Seen without its threads the daemon is a service that takes, answers
  and at most once refuses connections: every step it takes is a step of that service or none.

  \<^bold>\<open>Bounds and non-termination.\<close>  The pointer loops run over the finite domain of the C memory and
  stop, with undefined behaviour, where it ends, so they are total functions.  The retry loops are
  partial functions whose value \<open>None\<close> is non-termination; both are proved to end: the first after at
  most 15 calls, the second after at most 53 because a vector cannot grow beyond \<open>isize::MAX\<close> bytes.
  Progress of work group and daemon is stated with an explicit number of steps.

  \<^bold>\<open>Not modelled.\<close>  Log messages other than those of \<open>handle_stream\<close>
  and the first one of \<open>main\<close>, and the set-up of the log drains: logging is taken to work,
  while the drains of \<open>main\<close> are fused and would panic if they failed, in start-up and in
  every thread that logs.  An allocation never fails (where it does the process aborts), in particular
  not in \<open>Vec::reserve\<close>.  The contents of the file system (what its calls return is a
  parameter), the effect of \<open>__nss_disable_nscd\<close> inside the C library, the benchmark, the
  packaging and the tests that start threads are left out as well.  Time is not modelled: a hand-over
  may time out at any moment.  A connection whose handling has undefined behaviour or does not return
  leaves its worker without a step.  A section that a thread runs under the mutex is one step.  When
  \<open>main\<close> returns or unwinds the process ends at once: what other threads still do while
  \<open>main\<close> drops its variables is left out.
\<close>

section \<open>From the socket to the reply\<close>

lemma passwd_not_ignored:
  assumes "(''NSNCD_IGNORE_PASSWD'', ''true'') \<notin> set env"
  shows "GETPWBYNAME \<notin> ignored_by env"
  using assms by (auto simp: ignored_by_def documented_databases_def)

lemma served_example:
  "\<exists>d. reachable (daemon_init example_setting) (daemon_step example_setting) d \<and>
     (peer_sending (encode_request linux_release \<lparr>req_ty = SHUTDOWN, req_key = []\<rparr>),
      [Log Debug ''accepted connection'', Write_All [], Shutdown_Both]) \<in> set (served (shared (group_of d)))"
proof -
  let ?S = example_setting
  let ?r = "\<lparr>req_ty = SHUTDOWN, req_key = []\<rparr>"
  let ?s = "peer_sending (encode_request linux_release ?r)"
  have ok: "group_ok (Suc (workers ?S)) (group_of idle_daemon)"
    "threads_ok ?S (all_threads (group_of idle_daemon)) (shared (group_of idle_daemon))"
    using reachable_daemon_ok [OF _ idle_daemon_reachable] by (simp_all add: daemon_ok_def)
  have "from_primitive_law (lib_from_i32 example_libs)"
    by (simp add: example_libs_def from_i32_by_search_law)
  then have "parse linux_release (lib_from_i32 example_libs) (take 4096 (encode_request linux_release ?r)) = Ok ?r"
    by (intro parse_prefix [THEN iffD2]) auto
  then have "handle_stream linux_release example_libs Config_default ?s =
      ([Log Debug ''accepted connection'', Write_All [], Shutdown_Both], Ok ())"
    by (simp add: handle_stream_incoming [where bs = "encode_request linux_release ?r"] peer_sending_def
        handle_unanswered answered_def host_types_def send_response_def)
  with serve_connection [OF _ ok, of 0 example_libs ?s] obtain g where
    "(group_step (daemon_bodies ?S))\<^sup>*\<^sup>* (group_of idle_daemon) g"
    "(?s, [Log Debug ''accepted connection'', Write_All [], Shutdown_Both]) \<in> set (served (shared g))"
    by (auto simp: idle_daemon_def nth_append)
  with lift_group_steps [of ?S "group_of idle_daemon" g idle_daemon] show ?thesis
    using reachable_steps [OF _ idle_daemon_reachable]
    by (intro exI [of _ "idle_daemon\<lparr>group_of := g\<rparr>"]) (simp add: idle_daemon_def)
qed

text \<open>
  C2. Whatever the daemon writes to a connection is the reply of the handler to a request its peer has
  sent: for every connection served in any interleaving of acceptor, workers and shutdown, the bytes
  written are \<open>handle_request\<close> of a request whose encoding starts what has arrived, under some
  behaviour of the libraries.
\<close>

theorem every_reply_answers_its_request:
  assumes "reachable (daemon_init S) (daemon_step S) d"
    and "\<forall>lib \<in> st_libs S. from_primitive_law (lib_from_i32 lib)"
    and "(s, ev) \<in> set (served (shared (group_of d)))" "Write_All bs \<in> set ev"
  shows "\<exists>lib \<in> st_libs S. \<exists>r junk. us_incoming s = Inr (encode_request (st_target S) r @ junk) \<and>
    handle_request (st_target S) lib (st_config S) r = Ok bs"
proof -
  obtain lib where lib: "lib \<in> st_libs S" "fst (handle_stream (st_target S) lib (st_config S) s) = ev"
    using nsncd_log.reachable_inv [OF assms(1)] assms(3) by (auto simp: log_ok_def)
  then obtain inc where inc: "us_incoming s = Inr inc" "obind (parse (st_target S) (lib_from_i32 lib) (take 4096 inc))
      (handle_request (st_target S) lib (st_config S)) = Ok bs"
    using assms(4) handle_stream_writes [of bs "st_target S" lib "st_config S" s] by auto
  then show ?thesis
    using lib(1) assms(2) by (auto simp: obind_eq_Ok parse_prefix)
qed

theorem every_reply_answers_its_request_witness:
  "\<exists>r junk. encode_request linux_release \<lparr>req_ty = SHUTDOWN, req_key = []\<rparr> = encode_request linux_release r @ junk \<and>
     handle_request linux_release example_libs Config_default r = Ok []"
proof -
  obtain d where "reachable (daemon_init example_setting) (daemon_step example_setting) d"
    "(peer_sending (encode_request linux_release \<lparr>req_ty = SHUTDOWN, req_key = []\<rparr>),
      [Log Debug ''accepted connection'', Write_All [], Shutdown_Both]) \<in> set (served (shared (group_of d)))"
    using served_example by blast
  from every_reply_answers_its_request [OF this(1) _ this(2), of "[]"] show ?thesis
    by (auto simp: peer_sending_def example_libs_def from_i32_by_search_law)
qed

text \<open>
  C4. A user lookup works from end to end: if the environment configures the daemon and does not switch
  off the passwd database, a client that sends the encoding of a lookup of a name gets one reply, from
  which it decodes exactly the entry the user database has for that name, or that there is none.
\<close>

theorem user_lookup_end_to_end:
  assumes "from_env env = Ok cfg" "(''NSNCD_IGNORE_PASSWD'', ''true'') \<notin> set env"
    and "from_primitive_law (lib_from_i32 lib)"
    and "cstring_ok name" "is_utf8 name" "length name \<le> 4083"
    and "lib_user_from_name lib name = Inr user" "option_fits user_fits user"
    and "us_incoming s = Inr (encode_request t \<lparr>req_ty = GETPWBYNAME, req_key = with_nul name\<rparr> @ junk)"
  shows "\<exists>bs. io_actions (handle_stream t lib cfg s) = [Write_All bs, Shutdown_Both] \<and>
    decode_user_reply t bs = Some user"
proof -
  let ?r = "\<lparr>req_ty = GETPWBYNAME, req_key = with_nul name\<rparr>"
  have "\<not> ignores cfg GETPWBYNAME"
    using from_env_ignores [OF assms(1)] passwd_not_ignored [OF assms(2)] by simp
  then obtain bs where bs: "handle_request t lib cfg ?r = Ok bs" "decode_user_reply t bs = Some user"
    using handle_getpwbyname [OF from_env_set_ok [OF assms(1)] _ assms(4,5,7,8)] by blast
  have "parse t (lib_from_i32 lib) (take 4096 (encode_request t ?r @ junk)) = Ok ?r"
    using assms(6) by (intro parse_prefix [OF assms(3), THEN iffD2]) (auto simp: with_nul_def)
  with bs assms(9) show ?thesis by (simp add: handle_stream_io)
qed

theorem user_lookup_end_to_end_witness:
  "\<exists>bs. io_actions (handle_stream linux_release example_libs Config_default
      (peer_sending (encode_request linux_release \<lparr>req_ty = GETPWBYNAME, req_key = with_nul [114]\<rparr>))) =
     [Write_All bs, Shutdown_Both] \<and> decode_user_reply linux_release bs = Some (Some example_user)"
proof (rule user_lookup_end_to_end [where env = "[]" and name = "[114]" and junk = "[]"])
  show "from_env [] = Ok Config_default"
    by (simp add: from_env_def env_positive_usize_def env_var_def Config_default_def)
qed (simp_all add: peer_sending_def example_libs_def from_i32_by_search_law cstring_ok_def example_user_def
    user_fits_def wire_string_def)

end
